theory Spec2Isabelle
  imports Complex_Main
begin

section \<open>Conventions\<close>

text \<open>
  The agent computes with PyTorch and NumPy floating-point tensors. A tensor entry is
  modelled as a \<^typ>\<open>real\<close>, and the rounding of single-precision arithmetic is left
  out, with two exceptions where the source leaves single precision or its range and the
  result changes: the policy loss is accumulated in a tensor that the source creates with
  \<open>dtype=torch.float16\<close>, so every partial sum is rounded to half precision, and the shift
  of the scores in \<open>choose_maxQ_command\<close> overflows to infinity beyond the range of
  single precision. A one-dimensional tensor is a list, a two-dimensional tensor a list of
  rows. Every place where Python or PyTorch raises is a branch returning \<open>Inl\<close> of an
  \<open>error\<close>.
\<close>

datatype error = IndexError | KeyError | RuntimeError | AttributeError | ValueError

section \<open>State-visitation counter (agent.py, reset_binarized_counter and get_binarized_count)\<close>

text \<open>
  \<open>self.binarized_counter_dict\<close> is a list with one dictionary per game of the batch;
  each dictionary maps an observation string to a float count.
\<close>

type_synonym counter_dict = "(string \<rightharpoonup> real) list"

definition reset_binarized_counter :: "nat \<Rightarrow> counter_dict" where
  "reset_binarized_counter batch_size = replicate batch_size Map.empty"

text \<open>
  The body of the \<open>for i in range(batch_size)\<close> loop of \<open>get_binarized_count\<close>: the
  remaining keys are \<open>observation_strings[i:]\<close>, the accumulator is \<open>count_rewards\<close>
  together with the dictionaries. \<open>self.binarized_counter_dict[i]\<close> raises IndexError
  when the agent holds fewer dictionaries than there are keys.
\<close>

fun binarized_count_loop ::
  "bool \<Rightarrow> nat \<Rightarrow> string list \<Rightarrow> real list \<times> counter_dict \<Rightarrow> error + (real list \<times> counter_dict)" where
  "binarized_count_loop update i [] st = Inr st"
| "binarized_count_loop update i (key # rest) (count_rewards, d) =
     (if i < length d then
        (let di = d ! i;
             di1 = (case di key of None \<Rightarrow> di(key \<mapsto> 0) | Some c \<Rightarrow> di);
             di2 = (if update then (case di1 key of None \<Rightarrow> di1 | Some c \<Rightarrow> di1(key \<mapsto> c + 1))
                    else di1)
         in case di2 key of
              None \<Rightarrow> Inl KeyError
            | Some r \<Rightarrow>
                binarized_count_loop update (Suc i) rest
                  (count_rewards @ [if r = 1 then 1 else 0], d[i := di2]))
      else Inl IndexError)"

definition get_binarized_count ::
  "counter_dict \<Rightarrow> string list \<Rightarrow> bool \<Rightarrow> error + (real list \<times> counter_dict)" where
  "get_binarized_count d observation_strings update =
     binarized_count_loop update 0 observation_strings ([], d)"

text \<open>
  train.py calls \<open>get_binarized_count(state_strings, update=True)\<close> once before the step
  loop and once per game step. \<open>count_episode\<close> threads the dictionaries through such a
  sequence of calls and collects the reward vectors.
\<close>

fun count_episode :: "counter_dict \<Rightarrow> string list list \<Rightarrow> error + (real list list \<times> counter_dict)" where
  "count_episode d [] = Inr ([], d)"
| "count_episode d (ks # kss) =
     (case get_binarized_count d ks True of
        Inl e \<Rightarrow> Inl e
      | Inr (rs, d') \<Rightarrow>
          (case count_episode d' kss of
             Inl e \<Rightarrow> Inl e
           | Inr (rss, d'') \<Rightarrow> Inr (rs # rss, d'')))"

text \<open>The count a dictionary holds for a key, an absent key counting as zero.\<close>

definition stored_count :: "(string \<rightharpoonup> real) \<Rightarrow> string \<Rightarrow> real" where
  "stored_count di key = (case di key of None \<Rightarrow> 0 | Some c \<Rightarrow> c)"

definition bump :: "bool \<Rightarrow> real" where
  "bump update = (if update then 1 else 0)"

text \<open>What one pass of the loop body returns for a game, and what it leaves stored.\<close>

definition count_reward :: "bool \<Rightarrow> (string \<rightharpoonup> real) \<Rightarrow> string \<Rightarrow> real" where
  "count_reward upd di key = (if stored_count di key + bump upd = 1 then 1 else 0)"

definition count_store :: "bool \<Rightarrow> (string \<rightharpoonup> real) \<Rightarrow> string \<Rightarrow> (string \<rightharpoonup> real)" where
  "count_store upd di key = di(key \<mapsto> stored_count di key + bump upd)"

text \<open>Every stored count is at least one: what holds when every call so far had \<open>update=True\<close>.\<close>

definition counted :: "counter_dict \<Rightarrow> bool" where
  "counted d = (\<forall>i<length d. \<forall>k c. (d ! i) k = Some c \<longrightarrow> 1 \<le> c)"

section \<open>Tensor operations used by the loss computations\<close>

text \<open>Sequencing of computations that may raise.\<close>

definition bind_err :: "error + 'a \<Rightarrow> ('a \<Rightarrow> error + 'b) \<Rightarrow> error + 'b" where
  "bind_err m f = (case m of Inl e \<Rightarrow> Inl e | Inr x \<Rightarrow> f x)"

text \<open>
  \<open>torch.stack\<close> of a Python list of zero-dimensional tensors gives the one-dimensional
  tensor of its entries, and raises RuntimeError on the empty list.
\<close>

definition stack :: "real list \<Rightarrow> error + real list" where
  "stack xs = (if xs = [] then Inl RuntimeError else Inr xs)"

text \<open>
  \<open>torch.stack\<close> of a list of one-dimensional tensors gives the matrix of these rows; it
  raises on the empty list and when the rows differ in size.
\<close>

definition stack_rows :: "real list list \<Rightarrow> error + real list list" where
  "stack_rows rows =
     (if rows = [] then Inl RuntimeError
      else if list_all (\<lambda>r. length r = length (hd rows)) rows then Inr rows
      else Inl RuntimeError)"

text \<open>
  An element-wise operation on two one-dimensional tensors: equal sizes combine entry by
  entry, a tensor of size one is broadcast, any other pair of sizes raises.
\<close>

definition tensor_op :: "(real \<Rightarrow> real \<Rightarrow> real) \<Rightarrow> real list \<Rightarrow> real list \<Rightarrow> error + real list" where
  "tensor_op f xs ys =
     (if length xs = length ys then Inr (map2 f xs ys)
      else if length xs = 1 then Inr (map (f (hd xs)) ys)
      else if length ys = 1 then Inr (map (\<lambda>x. f x (hd ys)) xs)
      else Inl RuntimeError)"

text \<open>\<open>m[:, i]\<close> on a matrix: IndexError when the rows are not wider than \<open>i\<close>.\<close>

definition column :: "nat \<Rightarrow> real list list \<Rightarrow> error + real list" where
  "column i rows =
     (if list_all (\<lambda>r. i < length r) rows then Inr (map (\<lambda>r. r ! i) rows) else Inl IndexError)"

text \<open>
  \<open>.mean()\<close> over all entries. On an empty tensor PyTorch yields NaN; here the quotient by
  zero is 0, so the properties below are stated for non-empty tensors only.
\<close>

definition mean :: "real list \<Rightarrow> real" where
  "mean xs = sum_list xs / real (length xs)"

subsection \<open>Half precision\<close>

text \<open>
  A loss is a finite number or not: \<open>NonFinite\<close> stands for an infinity or a NaN, which
  every further sum or product with a finite number leaves non-finite.
\<close>

datatype loss_value = Finite real | NonFinite

definition map_loss :: "(real \<Rightarrow> real) \<Rightarrow> loss_value \<Rightarrow> loss_value" where
  "map_loss f l = (case l of Finite x \<Rightarrow> Finite (f x) | NonFinite \<Rightarrow> NonFinite)"

text \<open>
  The spacing of the half-precision numbers around a magnitude \<open>a\<close>: a half-precision
  number has 11 significant bits, so in the binade \<open>[1024 u, 2048 u)\<close> the spacing is \<open>u\<close>;
  the largest binade has \<open>u = 32\<close> and below \<open>2^-14\<close> the spacing stays \<open>2^-24\<close>.
\<close>

fun ulp_search :: "nat \<Rightarrow> real \<Rightarrow> real \<Rightarrow> real" where
  "ulp_search 0 u a = u"
| "ulp_search (Suc n) u a = (if 1024 * u \<le> a then u else ulp_search n (u / 2) a)"

definition ulp16 :: "real \<Rightarrow> real" where
  "ulp16 a = ulp_search 29 32 a"

text \<open>Rounding to the nearest integer, a tie going to the even one.\<close>

definition round_even :: "real \<Rightarrow> int" where
  "round_even q =
     (let f = \<lfloor>q\<rfloor>; d = q - of_int f
      in if d < 1 / 2 then f else if 1 / 2 < d then f + 1 else if even f then f else f + 1)"

text \<open>
  Storing a number in a \<open>torch.float16\<close> tensor: rounding to the nearest half-precision
  number, ties to even; from 65520 on, the midpoint between the largest half-precision
  number 65504 and \<open>2^16\<close>, the result is infinite.
\<close>

definition to_float16 :: "real \<Rightarrow> loss_value" where
  "to_float16 x =
     (if 65520 \<le> \<bar>x\<bar> then NonFinite
      else Finite (of_int (round_even (x / ulp16 \<bar>x\<bar>)) * ulp16 \<bar>x\<bar>))"

text \<open>\<open>acc += x\<close> on a half-precision tensor \<open>acc\<close>: the sum is stored in half precision.\<close>

definition half_add :: "loss_value \<Rightarrow> real \<Rightarrow> loss_value" where
  "half_add acc x = (case acc of Finite a \<Rightarrow> to_float16 (a + x) | NonFinite \<Rightarrow> NonFinite)"

section \<open>Actor-critic loss (agent.py, get_actor_critic_loss)\<close>

text \<open>
  The columns of the batch that \<open>command_generation_replay_memory.get_batch()\<close> hands to
  \<open>get_actor_critic_loss\<close> and that the loss reads: one entry per stored step. The
  log-probabilities and entropies of a step are lists with one entry per command slot
  (verb, modifier, noun). The remaining columns only feed the curiosity module.
\<close>

record ac_batch =
  rewards :: "real list"
  state_values :: "real list"
  action_log_probs :: "real list list"
  action_entropies :: "real list list"
  is_finals :: "bool list"

text \<open>
  The loop \<open>for i, reward in enumerate(rewards[::-1])\<close>: the state is \<open>(Gt, returns)\<close>,
  \<open>rev_finals\<close> is \<open>is_finals[::-1]\<close>, and \<open>returns.insert(0, Gt)\<close> puts the new return in
  front.
\<close>

fun returns_loop ::
  "real \<Rightarrow> bool list \<Rightarrow> nat \<Rightarrow> real list \<Rightarrow> real \<times> real list \<Rightarrow> error + (real \<times> real list)" where
  "returns_loop discount_gamma rev_finals i [] st = Inr st"
| "returns_loop discount_gamma rev_finals i (reward # rest) (Gt, returns) =
     (if i < length rev_finals then
        (let Gt0 = (if rev_finals ! i then 0 else Gt);
             Gt1 = reward + discount_gamma * Gt0
         in returns_loop discount_gamma rev_finals (Suc i) rest (Gt1, Gt1 # returns))
      else Inl IndexError)"

definition mc_returns :: "real \<Rightarrow> real list \<Rightarrow> bool list \<Rightarrow> error + real list" where
  "mc_returns discount_gamma rews finals =
     bind_err (returns_loop discount_gamma (rev finals) 0 (rev rews) (0, []))
       (\<lambda>(Gt, returns). stack returns)"

text \<open>\<open>finals_mask = 1 - to_pt(np.array(is_finals, dtype=bool))\<close>.\<close>

definition finals_mask :: "bool list \<Rightarrow> real list" where
  "finals_mask finals = map (\<lambda>f. 1 - (if f then 1 else 0)) finals"

text \<open>\<open>advantage = returns - state_values * finals_mask\<close>.\<close>

definition advantage :: "real list \<Rightarrow> real list \<Rightarrow> bool list \<Rightarrow> error + real list" where
  "advantage returns values finals =
     bind_err (stack values) (\<lambda>vs.
     bind_err (tensor_op (*) vs (finals_mask finals)) (\<lambda>masked.
     tensor_op (-) returns masked))"

text \<open>
  The loop \<open>for i, logs in enumerate(action_log_probs)\<close> that stacks the entropies and the
  log-probabilities of every step; \<open>action_entropies[i]\<close> raises IndexError past the end.
\<close>

fun concat_loop ::
  "real list list \<Rightarrow> nat \<Rightarrow> real list list \<Rightarrow> real list list \<times> real list list
     \<Rightarrow> error + (real list list \<times> real list list)" where
  "concat_loop entropies i [] st = Inr st"
| "concat_loop entropies i (logs # rest) (concat_entropies, concat_probs) =
     (if i < length entropies then
        bind_err (stack (entropies ! i)) (\<lambda>e.
        bind_err (stack logs) (\<lambda>l.
        concat_loop entropies (Suc i) rest (concat_entropies @ [e], concat_probs @ [l])))
      else Inl IndexError)"

text \<open>
  The loop \<open>for i in range(3): policy_losses += (-probs[:, i] * advantage).mean()\<close>, where
  \<open>policy_losses = torch.tensor(0.0, dtype=torch.float16, device=self.device)\<close>: the
  accumulator is a half-precision tensor and the addition is in place, so every partial sum
  is stored in half precision.
\<close>

fun policy_loop ::
  "real list list \<Rightarrow> real list \<Rightarrow> nat list \<Rightarrow> loss_value \<Rightarrow> error + loss_value" where
  "policy_loop probs adv [] policy_losses = Inr policy_losses"
| "policy_loop probs adv (i # rest) policy_losses =
     bind_err (column i probs) (\<lambda>col.
     bind_err (tensor_op (*) (map uminus col) adv) (\<lambda>prod.
     policy_loop probs adv rest (half_add policy_losses (mean prod))))"

text \<open>
  The curiosity module, when enabled, contributes \<open>lambda_weight\<close>, \<open>loss_weight\<close> and the
  loss \<open>icm_loss\<close> it computes with the networks.
\<close>

record icm_term =
  lambda_weight :: real
  loss_weight :: real
  icm_loss :: real

definition mix_icm :: "icm_term option \<Rightarrow> real \<Rightarrow> real" where
  "mix_icm icm l =
     (case icm of None \<Rightarrow> l
      | Some c \<Rightarrow> lambda_weight c * l + loss_weight c * icm_loss c)"

definition get_actor_critic_loss ::
  "real \<Rightarrow> real \<Rightarrow> icm_term option \<Rightarrow> ac_batch option \<Rightarrow> error + loss_value option" where
  "get_actor_critic_loss discount_gamma entropy_coeff icm data =
     (case data of
        None \<Rightarrow> Inr None
      | Some b \<Rightarrow>
          bind_err (mc_returns discount_gamma (rewards b) (is_finals b)) (\<lambda>returns.
          bind_err (advantage returns (state_values b) (is_finals b)) (\<lambda>adv.
          bind_err (concat_loop (action_entropies b) 0 (action_log_probs b) ([], []))
            (\<lambda>(concat_entropies, concat_probs).
          bind_err (stack_rows concat_entropies) (\<lambda>ents.
          bind_err (stack_rows concat_probs) (\<lambda>probs.
          bind_err (policy_loop probs adv [0..<3] (Finite 0)) (\<lambda>policy_losses.
            (let entropy_loss = mean (concat ents);
                 value_losses = 0.5 * mean (map (\<lambda>a. a ^ 2) adv);
                 actor_critic_loss =
                   map_loss (\<lambda>p. p + value_losses - entropy_coeff * entropy_loss) policy_losses
             in Inr (Some (map_loss (mix_icm icm) actor_critic_loss))))))))))"

text \<open>One pass of the body of the returns loop, as a function on \<open>(Gt, returns)\<close>.\<close>

definition ret_step :: "real \<Rightarrow> real \<times> bool \<Rightarrow> real \<times> real list \<Rightarrow> real \<times> real list" where
  "ret_step g p st = (let G1 = fst p + g * (if snd p then 0 else fst st) in (G1, G1 # snd st))"

text \<open>
  The returns as the specification words them: \<open>G_t = r_t + \<gamma> G_{t+1}\<close>, computed from the
  end of the sequence, with \<open>G\<close> taken as 0 after a terminal step and after the last step.
\<close>

fun discounted_returns :: "real \<Rightarrow> (real \<times> bool) list \<Rightarrow> real list" where
  "discounted_returns g [] = []"
| "discounted_returns g ((r, f) # rest) =
     (r + g * (if f then 0 else (case discounted_returns g rest of [] \<Rightarrow> 0 | G # _ \<Rightarrow> G)))
       # discounted_returns g rest"

text \<open>
  The three terms of the loss as the specification words them: the policy loss is the sum
  over the three command slots of the mean of minus the slot's log-probability times the
  advantage, the value loss is half the mean squared advantage, and the entropy is the mean
  of all stored per-slot entropies.
\<close>

definition policy_loss_spec :: "real list list \<Rightarrow> real list \<Rightarrow> real" where
  "policy_loss_spec log_probs adv =
     (\<Sum>slot\<leftarrow>[0, 1, 2]. mean (map2 (\<lambda>lp a. - (lp ! slot * a)) log_probs adv))"

definition value_loss_spec :: "real list \<Rightarrow> real" where
  "value_loss_spec adv = 1 / 2 * mean (map (\<lambda>a. a * a) adv)"

definition entropy_spec :: "real list list \<Rightarrow> real" where
  "entropy_spec entropies = mean (concat entropies)"

text \<open>
  The mean of minus the log-probability of one command slot times the advantage, and the
  policy loss as the code accumulates it: the three slot means are added one after the other
  to a half-precision zero, every partial sum being stored in half precision.
\<close>

definition slot_loss :: "real list list \<Rightarrow> real list \<Rightarrow> nat \<Rightarrow> real" where
  "slot_loss log_probs adv slot = mean (map2 (\<lambda>lp a. - (lp ! slot * a)) log_probs adv)"

definition policy_loss_half :: "real list list \<Rightarrow> real list \<Rightarrow> loss_value" where
  "policy_loss_half log_probs adv =
     half_add (half_add (half_add (Finite 0) (slot_loss log_probs adv 0))
                 (slot_loss log_probs adv 1))
       (slot_loss log_probs adv 2)"

section \<open>Greedy command choice (agent.py, choose_maxQ_command)\<close>

text \<open>Mapping a computation that may raise over a list, stopping at the first error.\<close>

fun map_err :: "('a \<Rightarrow> error + 'b) \<Rightarrow> 'a list \<Rightarrow> error + 'b list" where
  "map_err f [] = Inr []"
| "map_err f (x # xs) =
     (case f x of Inl e \<Rightarrow> Inl e
      | Inr y \<Rightarrow> (case map_err f xs of Inl e \<Rightarrow> Inl e | Inr ys \<Rightarrow> Inr (y # ys)))"

text \<open>
  A score after the shift: a finite number, an infinity, or a NaN.
\<close>

datatype score = Fin real | PInf | NInf | NaN

text \<open>
  The magnitude from which a single-precision result is infinite: the midpoint between the
  largest single-precision number \<open>2^128 - 2^104\<close> and \<open>2^128\<close>.
\<close>

definition float32_overflow :: real where
  "float32_overflow = 2 ^ 128 - 2 ^ 103"

text \<open>
  \<open>ar - torch.min(ar, -1, keepdim=True)[0] + 1e-2\<close> on one row of finite scores:
  \<open>torch.min\<close> along a dimension of size zero raises IndexError; a difference from the
  minimum that reaches the overflow magnitude is infinite in single precision and stays so.
\<close>

definition shift_row :: "real list \<Rightarrow> error + score list" where
  "shift_row ar =
     (if ar = [] then Inl IndexError
      else Inr (map (\<lambda>x. if float32_overflow \<le> x - Min (set ar) then PInf
                          else Fin (x - Min (set ar) + 1 / 100)) ar))"

text \<open>
  \<open>ar * word_mask[i]\<close> on one entry. The word masks hold 0.0 and 1.0
  (\<open>get_local_word_masks\<close>), with which the product of a finite score stays in range; an
  infinity times 0 is a NaN.
\<close>

definition times_mask :: "score \<Rightarrow> real \<Rightarrow> score" where
  "times_mask x w =
     (case x of
        Fin a \<Rightarrow> Fin (a * w)
      | PInf \<Rightarrow> (if w = 0 then NaN else if 0 < w then PInf else NInf)
      | NInf \<Rightarrow> (if w = 0 then NaN else if 0 < w then NInf else PInf)
      | NaN \<Rightarrow> NaN)"

text \<open>
  \<open>torch.argmax(ar, -1)\<close> on one row: a NaN counts as the largest entry, so the index of the
  first NaN if there is one, otherwise the index of the first maximal entry; a row of size
  zero raises.
\<close>

fun finite_scores :: "score list \<Rightarrow> real list" where
  "finite_scores [] = []"
| "finite_scores (Fin a # xs) = a # finite_scores xs"
| "finite_scores (x # xs) = finite_scores xs"

definition first_index :: "score \<Rightarrow> score list \<Rightarrow> nat" where
  "first_index y xs = length (takeWhile (\<lambda>x. x \<noteq> y) xs)"

definition argmax :: "score list \<Rightarrow> error + nat" where
  "argmax xs =
     (if xs = [] then Inl IndexError
      else Inr (if NaN \<in> set xs then first_index NaN xs
                else if PInf \<in> set xs then first_index PInf xs
                else (case finite_scores xs of
                        [] \<Rightarrow> 0
                      | a # as \<Rightarrow> first_index (Fin (Max (set (a # as)))) xs)))"

text \<open>\<open>(item * self.support).sum(2)\<close> on one distribution over the atoms.\<close>

definition expected_value :: "real list \<Rightarrow> real list \<Rightarrow> error + real" where
  "expected_value support p = bind_err (tensor_op (*) p support) (\<lambda>zp. Inr (sum_list zp))"

text \<open>
  What \<open>get_ranks\<close> returns: per command slot a batch x vocab matrix of Q-values, or,
  when \<open>use_distributional\<close> is set, per slot a batch x vocab x atoms tensor of
  probabilities.
\<close>

datatype ranks =
  Values "real list list list"
| Distributions "real list list list list"

text \<open>\<open>word_mask[i].size() == ar.size()\<close> for two matrices given by their rows.\<close>

definition same_size :: "'a list list \<Rightarrow> 'b list list \<Rightarrow> bool" where
  "same_size a b = (map length a = map length b)"

text \<open>
  One pass of the loop \<open>for i in range(len(action_ranks))\<close> of \<open>choose_maxQ_command\<close>. When
  the sizes differ, the message of the failing \<open>assert\<close> is evaluated first and
  \<open>word_mask[i].size().shape\<close> raises AttributeError.
\<close>

definition choose_maxQ_slot ::
  "real list list list \<Rightarrow> real list list list option \<Rightarrow> nat \<Rightarrow> error + nat list" where
  "choose_maxQ_slot action_ranks word_mask i =
     bind_err (map_err shift_row (action_ranks ! i)) (\<lambda>ar.
       (case word_mask of
          None \<Rightarrow> map_err argmax ar
        | Some wm \<Rightarrow>
            if i < length wm then
              (if same_size (wm ! i) ar
               then map_err argmax (map2 (map2 times_mask) ar (wm ! i))
               else Inl AttributeError)
            else Inl IndexError))"

text \<open>
  The scores that enter the loop: the Q-values themselves, or, when \<open>use_distributional\<close>
  is set, the expected values of the distributions.
\<close>

definition scores_of :: "real list \<Rightarrow> ranks \<Rightarrow> error + real list list list" where
  "scores_of support ranks =
     (case ranks of
        Values v \<Rightarrow> Inr v
      | Distributions d \<Rightarrow> map_err (map_err (map_err (expected_value support))) d)"

definition choose_maxQ_command ::
  "real list \<Rightarrow> ranks \<Rightarrow> real list list list option \<Rightarrow> error + nat list list" where
  "choose_maxQ_command support ranks word_mask =
     bind_err (scores_of support ranks)
       (\<lambda>action_ranks.
          map_err (choose_maxQ_slot action_ranks word_mask) [0..<length action_ranks])"

section \<open>DQN loss (agent.py, get_dqn_loss)\<close>

text \<open>
  Modelled from the spec: \<open>generic.ez_gather_dim_1\<close> is not among the sources. The loss
  uses it for "scoring the chosen indices": for every batch row it picks the entry of the
  row at the row's index, \<open>w_rank[b][idx[b]]\<close>; an index outside the row raises, as
  \<open>torch.gather\<close> does.
\<close>

definition gather_dim_1 :: "'a list list \<Rightarrow> nat list \<Rightarrow> error + 'a list" where
  "gather_dim_1 w_rank idx =
     (if length w_rank = length idx
      then map_err (\<lambda>(row, k). if k < length row then Inr (row ! k) else Inl RuntimeError)
             (zip w_rank idx)
      else Inl RuntimeError)"

text \<open>
  \<open>[ez_gather_dim_1(w_rank, idx.unsqueeze(-1)).squeeze(1) for w_rank, idx in zip(ranks, indices)]\<close>.
\<close>

definition gather_slots :: "'a list list list \<Rightarrow> nat list list \<Rightarrow> error + 'a list list" where
  "gather_slots ranks indices =
     map_err (\<lambda>(w_rank, idx). gather_dim_1 w_rank idx) (zip ranks indices)"

text \<open>
  \<open>torch.mean(torch.stack(word_qvalues, -1), -1)\<close>: the average over the command slots, for
  every batch element.
\<close>

definition slot_mean :: "real list list \<Rightarrow> error + real list" where
  "slot_mean word_qvalues =
     bind_err (stack_rows word_qvalues) (\<lambda>rows.
       Inr (map (\<lambda>b. mean (map (\<lambda>row. row ! b) rows)) [0..<length (hd rows)]))"

text \<open>
  \<open>F.smooth_l1_loss\<close> of PyTorch with its defaults (beta 1, mean reduction): the Huber
  distance.
\<close>

definition smooth_l1 :: "real \<Rightarrow> real" where
  "smooth_l1 d = (if \<bar>d\<bar> < 1 then 0.5 * d ^ 2 else \<bar>d\<bar> - 0.5)"

definition smooth_l1_loss :: "real list \<Rightarrow> real list \<Rightarrow> error + real" where
  "smooth_l1_loss input target =
     bind_err (tensor_op (-) input target) (\<lambda>d. Inr (mean (map smooth_l1 d)))"

text \<open>
  The columns of the batch of \<open>get_batch(replay_batch_size, multi_step)\<close> that the loss
  arithmetic reads; the texts only feed the networks. The batch carries no terminal flag.
\<close>

record dqn_batch =
  chosen_indices :: "nat list list"
  batch_rewards :: "real list"
  actual_n_list :: "nat list"

text \<open>
  The outputs of \<open>get_ranks\<close> that \<open>get_dqn_loss\<close> consumes (slot x batch x vocab): the
  online network on the current observations, the online and the target network on the
  next observations, and the word masks of the next observations.
\<close>

record 'a dqn_nets =
  action_ranks :: "'a list list list"
  next_online_ranks :: "'a list list list"
  next_target_ranks :: "'a list list list"
  next_local_word_masks :: "real list list list"

text \<open>
  \<open>(np.ones_like(actual_n_list) * self.discount_gamma) ** actual_n_list\<close>.
\<close>

definition discount_of :: "real \<Rightarrow> nat list \<Rightarrow> real list" where
  "discount_of discount_gamma ns = map (\<lambda>n. discount_gamma ^ n) ns"

text \<open>
  The \<open>if self.double_dqn\<close> block: the next action is chosen with the online network when
  double-DQN is on and with the target network otherwise; its value is read from the target
  network in both branches. \<open>wrap\<close> is the constructor of \<open>ranks\<close> for the mode.
\<close>

definition next_word_qvalues ::
  "bool \<Rightarrow> real list \<Rightarrow> ('a list list list \<Rightarrow> ranks) \<Rightarrow> 'a dqn_nets \<Rightarrow> error + 'a list list" where
  "next_word_qvalues double_dqn support wrap nets =
     (if double_dqn then
        bind_err (choose_maxQ_command support (wrap (next_online_ranks nets))
                    (Some (next_local_word_masks nets)))
          (\<lambda>next_word_indices. gather_slots (next_target_ranks nets) next_word_indices)
      else
        bind_err (choose_maxQ_command support (wrap (next_target_ranks nets))
                    (Some (next_local_word_masks nets)))
          (\<lambda>next_word_indices. gather_slots (next_target_ranks nets) next_word_indices))"

text \<open>
  The non-distributional branch: \<open>rewards = rewards + next_q_value * discount\<close>.
\<close>

definition dqn_targets ::
  "real \<Rightarrow> bool \<Rightarrow> real dqn_nets \<Rightarrow> dqn_batch \<Rightarrow> error + real list" where
  "dqn_targets discount_gamma double_dqn nets data =
     bind_err (next_word_qvalues double_dqn [] Values nets) (\<lambda>nwq.
     bind_err (slot_mean nwq) (\<lambda>next_q_value.
     bind_err (tensor_op (*) next_q_value (discount_of discount_gamma (actual_n_list data)))
       (\<lambda>bootstrap. tensor_op (+) (batch_rewards data) bootstrap)))"

text \<open>
  \<open>get_dqn_loss\<close> on a sampled batch when \<open>use_distributional\<close> is off.
\<close>

definition dqn_loss_values ::
  "real \<Rightarrow> bool \<Rightarrow> icm_term option \<Rightarrow> real dqn_nets \<Rightarrow> dqn_batch \<Rightarrow> error + real" where
  "dqn_loss_values discount_gamma double_dqn icm nets data =
     bind_err (gather_slots (action_ranks nets) (chosen_indices data)) (\<lambda>word_qvalues.
     bind_err (slot_mean word_qvalues) (\<lambda>q_value.
     bind_err (dqn_targets discount_gamma double_dqn nets data) (\<lambda>target.
     bind_err (smooth_l1_loss q_value target) (\<lambda>dqn_loss.
       Inr (mix_icm icm dqn_loss)))))"

text \<open>
  The bootstrap target as the specification words it, with a factor that is 0 for a
  terminal transition and 1 otherwise.
\<close>

definition claimed_target :: "real \<Rightarrow> real \<Rightarrow> nat \<Rightarrow> real \<Rightarrow> bool \<Rightarrow> real" where
  "claimed_target discount_gamma reward actual_n next_Q terminal =
     reward + discount_gamma ^ actual_n * next_Q * (if terminal then 0 else 1)"

section \<open>Categorical projection (agent.py, distributional branch of get_dqn_loss)\<close>

text \<open>
  \<open>self.support = torch.linspace(self.v_min, self.v_max, self.atoms)\<close>: the atoms are evenly
  spaced from \<open>v_min\<close> to \<open>v_max\<close>.
\<close>

definition support_of :: "real \<Rightarrow> real \<Rightarrow> nat \<Rightarrow> real list" where
  "support_of v_min v_max atoms =
     (if atoms = 1 then [v_min]
      else map (\<lambda>j. v_min + real j * ((v_max - v_min) / (real atoms - 1))) [0..<atoms])"

text \<open>
  \<open>self.delta_z = (self.v_max - self.v_min) / (self.atoms - 1)\<close>. With one atom the
  constructor of the agent raises ZeroDivisionError, so an agent has at least two atoms
  whenever the distributional loss runs.
\<close>

definition delta_z_of :: "real \<Rightarrow> real \<Rightarrow> nat \<Rightarrow> real" where
  "delta_z_of v_min v_max atoms = (v_max - v_min) / (real atoms - 1)"

text \<open>\<open>Tz.clamp(min=self.v_min, max=self.v_max)\<close> on one entry.\<close>

definition clamp :: "real \<Rightarrow> real \<Rightarrow> real \<Rightarrow> real" where
  "clamp lo hi x = min (max x lo) hi"

text \<open>
  The two masked in-place updates on one entry, in the order of the source; the second reads
  the lower bin the first has left:
  \<open>l[(u > 0) * (l == u)] -= 1\<close> and \<open>u[(l < (self.atoms - 1)) * (l == u)] += 1\<close>.
\<close>

definition nudge :: "nat \<Rightarrow> int \<times> int \<Rightarrow> int \<times> int" where
  "nudge atoms lu =
     (let l = fst lu; u = snd lu;
          l1 = (if 0 < u \<and> l = u then l - 1 else l);
          u1 = (if l1 < int atoms - 1 \<and> l1 = u then u + 1 else u)
      in (l1, u1))"

text \<open>
  For one batch element and one atom \<open>j\<close>: \<open>Tz\<close>, then \<open>b = (Tz - v_min) / delta_z\<close>,
  then the lower and upper bin \<open>l = floor(b)\<close>, \<open>u = ceil(b)\<close> after the nudge.
\<close>

definition atom_bins :: "real \<Rightarrow> real \<Rightarrow> nat \<Rightarrow> real \<Rightarrow> real \<Rightarrow> nat \<Rightarrow> real \<times> int \<times> int" where
  "atom_bins v_min v_max atoms reward disc j =
     (let Tz = clamp v_min v_max (reward + disc * (support_of v_min v_max atoms ! j));
          b = (Tz - v_min) / delta_z_of v_min v_max atoms
      in (b, nudge atoms (\<lfloor>b\<rfloor>, \<lceil>b\<rceil>)))"

text \<open>
  \<open>m.view(-1).index_add_(0, index, source)\<close> on the flattened target: every source entry is
  added at its index, one after the other; an index outside the tensor raises.
\<close>

fun index_add :: "real list \<Rightarrow> (int \<times> real) list \<Rightarrow> error + real list" where
  "index_add m [] = Inr m"
| "index_add m ((k, v) # rest) =
     (if 0 \<le> k \<and> k < int (length m)
      then index_add (m[nat k := m ! nat k + v]) rest
      else Inl IndexError)"

text \<open>
  The index and source of the first \<open>index_add_\<close>, flattened row by row:
  \<open>(l + offset).view(-1)\<close> and \<open>(next_q_value * (u.float() - b)).view(-1)\<close>, the offset of
  batch row \<open>i\<close> being \<open>i * atoms\<close>.
\<close>

definition lower_adds ::
  "real \<Rightarrow> real \<Rightarrow> nat \<Rightarrow> real list \<Rightarrow> real list \<Rightarrow> real list list \<Rightarrow> nat \<Rightarrow> (int \<times> real) list" where
  "lower_adds v_min v_max atoms rews disc next_q batch_size =
     concat (map (\<lambda>i. map (\<lambda>j.
        (case atom_bins v_min v_max atoms (rews ! i) (disc ! i) j of
           (b, l, u) \<Rightarrow> (l + int (i * atoms), next_q ! i ! j * (real_of_int u - b))))
        [0..<atoms]) [0..<batch_size])"

text \<open>
  The index and source of the second \<open>index_add_\<close>: \<open>(u + offset).view(-1)\<close> and
  \<open>(next_q_value * (b - l.float())).view(-1)\<close>.
\<close>

definition upper_adds ::
  "real \<Rightarrow> real \<Rightarrow> nat \<Rightarrow> real list \<Rightarrow> real list \<Rightarrow> real list list \<Rightarrow> nat \<Rightarrow> (int \<times> real) list" where
  "upper_adds v_min v_max atoms rews disc next_q batch_size =
     concat (map (\<lambda>i. map (\<lambda>j.
        (case atom_bins v_min v_max atoms (rews ! i) (disc ! i) j of
           (b, l, u) \<Rightarrow> (u + int (i * atoms), next_q ! i ! j * (b - real_of_int l))))
        [0..<atoms]) [0..<batch_size])"

text \<open>
  The projected target \<open>m\<close> of the distributional branch, as the flattened
  \<open>batch_size x atoms\<close> tensor. The columns of a batch are equally long and every
  predicted distribution has one entry per atom; any other shapes are reported as a
  RuntimeError and are outside the model.
\<close>

definition target_distribution ::
  "real \<Rightarrow> real \<Rightarrow> nat \<Rightarrow> real list \<Rightarrow> real list \<Rightarrow> real list list \<Rightarrow> nat \<Rightarrow> error + real list" where
  "target_distribution v_min v_max atoms rews disc next_q batch_size =
     (if length rews = batch_size \<and> length disc = batch_size \<and> length next_q = batch_size
         \<and> list_all (\<lambda>p. length p = atoms) next_q
      then
        bind_err (index_add (replicate (batch_size * atoms) 0)
                    (lower_adds v_min v_max atoms rews disc next_q batch_size))
          (\<lambda>m. index_add m (upper_adds v_min v_max atoms rews disc next_q batch_size))
      else Inl RuntimeError)"

text \<open>Row \<open>i\<close> of the flattened tensor seen as \<open>batch_size x atoms\<close>.\<close>

definition row_of :: "nat \<Rightarrow> real list \<Rightarrow> nat \<Rightarrow> real list" where
  "row_of atoms m i = take atoms (drop (i * atoms) m)"

text \<open>What a list of index/source pairs adds to the \<open>n\<close> entries starting at \<open>off\<close>.\<close>

definition added_mass :: "nat \<Rightarrow> nat \<Rightarrow> (int \<times> real) list \<Rightarrow> real" where
  "added_mass off n kvs =
     (\<Sum>kv\<leftarrow>kvs. if int off \<le> fst kv \<and> fst kv < int (off + n) then snd kv else 0)"

section \<open>Update of the command generator (agent.py, get_dqn_loss and update_interaction)\<close>

text \<open>
  \<open>torch.mean(torch.stack(word_qvalues, -1), -1)\<close> on distributions: the average over the
  command slots, for every batch element and atom.
\<close>

definition slot_mean_dist :: "real list list list \<Rightarrow> error + real list list" where
  "slot_mean_dist word_qvalues =
     (if word_qvalues = [] then Inl RuntimeError
      else if list_all (\<lambda>w. map length w = map length (hd word_qvalues)) word_qvalues
      then Inr (map (\<lambda>b. map (\<lambda>a. mean (map (\<lambda>w. w ! b ! a) word_qvalues))
                              [0..<length (hd word_qvalues ! b)])
                  [0..<length (hd word_qvalues)])
      else Inl RuntimeError)"

text \<open>
  \<open>torch.mean(-torch.sum(m * log_q_value, 1))\<close>. PyTorch's logarithm of 0 is minus infinity;
  the properties below do not depend on the value of this term.
\<close>

definition cross_entropy :: "nat \<Rightarrow> real list \<Rightarrow> real list list \<Rightarrow> real" where
  "cross_entropy atoms m q_value =
     mean (map (\<lambda>i. - sum_list (map2 (\<lambda>mi qi. mi * ln qi) (row_of atoms m i) (q_value ! i)))
             [0..<length q_value])"

text \<open>
  \<open>get_dqn_loss\<close> on a sampled batch when \<open>use_distributional\<close> is on.
\<close>

definition dqn_loss_distributional ::
  "real \<Rightarrow> bool \<Rightarrow> real \<Rightarrow> real \<Rightarrow> nat \<Rightarrow> icm_term option \<Rightarrow> real list dqn_nets \<Rightarrow> dqn_batch
     \<Rightarrow> error + real" where
  "dqn_loss_distributional discount_gamma double_dqn v_min v_max atoms icm nets data =
     bind_err (gather_slots (action_ranks nets) (chosen_indices data)) (\<lambda>word_qvalues.
     bind_err (slot_mean_dist word_qvalues) (\<lambda>q_value.
     bind_err (next_word_qvalues double_dqn (support_of v_min v_max atoms) Distributions nets)
       (\<lambda>nwq.
     bind_err (slot_mean_dist nwq) (\<lambda>next_q_value.
     bind_err (target_distribution v_min v_max atoms (batch_rewards data)
                 (discount_of discount_gamma (actual_n_list data)) next_q_value
                 (length (actual_n_list data))) (\<lambda>m.
       Inr (mix_icm icm (cross_entropy atoms m q_value)))))))"

text \<open>
  The network outputs of the configured mode: Q-values when \<open>use_distributional\<close> is off,
  distributions together with \<open>v_min\<close>, \<open>v_max\<close> and \<open>atoms\<close> when it is on.
\<close>

datatype dqn_mode =
  Scalar "real dqn_nets"
| Categorical real real nat "real list dqn_nets"

text \<open>
  \<open>get_dqn_loss\<close>: \<open>memory_len\<close> is \<open>len(self.command_generation_replay_memory)\<close> and
  \<open>sampled\<close> is what \<open>get_batch(self.replay_batch_size, self.multi_step)\<close> returns, a
  random draw that is \<open>None\<close> when the memory cannot serve the batch.
\<close>

definition get_dqn_loss ::
  "real \<Rightarrow> bool \<Rightarrow> icm_term option \<Rightarrow> dqn_mode \<Rightarrow> nat \<Rightarrow> nat \<Rightarrow> dqn_batch option
     \<Rightarrow> error + loss_value option" where
  "get_dqn_loss discount_gamma double_dqn icm mode memory_len replay_batch_size sampled =
     (if memory_len < replay_batch_size then Inr None
      else (case sampled of
              None \<Rightarrow> Inr None
            | Some data \<Rightarrow>
                bind_err
                  (case mode of
                     Scalar nets \<Rightarrow> dqn_loss_values discount_gamma double_dqn icm nets data
                   | Categorical v_min v_max atoms nets \<Rightarrow>
                       dqn_loss_distributional discount_gamma double_dqn v_min v_max atoms icm
                         nets data)
                  (\<lambda>loss. Inr (Some (Finite loss)))))"

text \<open>
  Modelled from the spec: \<open>command_generation_memory.SingleEpisodeStorage\<close> is not among
  the sources. It is an ordered store of the steps of the running episodes; \<open>get_batch()\<close>
  returns the entire stored sequence, column by column, or \<open>None\<close> if the store is empty,
  and \<open>clear()\<close> empties it.
\<close>

record ac_step =
  step_reward :: real
  step_state_value :: real
  step_action_log_probs :: "real list"
  step_action_entropies :: "real list"
  step_is_final :: bool

definition episode_get_batch :: "ac_step list \<Rightarrow> ac_batch option" where
  "episode_get_batch storage =
     (if storage = [] then None
      else Some \<lparr>rewards = map step_reward storage,
                 state_values = map step_state_value storage,
                 action_log_probs = map step_action_log_probs storage,
                 action_entropies = map step_action_entropies storage,
                 is_finals = map step_is_final storage\<rparr>)"

definition episode_clear :: "ac_step list \<Rightarrow> ac_step list" where
  "episode_clear storage = []"

text \<open>
  The part of the agent that \<open>update_interaction\<close> changes: the episode store, the size of
  the replay memory, and counters of the calls of \<open>loss.backward()\<close> and
  \<open>self.optimizer.step()\<close>.
\<close>

record agent_state =
  episode_storage :: "ac_step list"
  replay_len :: nat
  backward_calls :: nat
  optimizer_steps :: nat

text \<open>The configuration that \<open>update_interaction\<close> reads.\<close>

record hyper =
  a2c :: bool
  discount_gamma :: real
  entropy_coeff :: real
  double_dqn :: bool
  replay_batch_size :: nat
  icm_module :: "icm_term option"

text \<open>
  \<open>update_interaction\<close>: the loss of the configured mode (the episode store is cleared
  after an actor-critic loss), \<open>None\<close> when there is no loss, and otherwise one backward
  pass and one optimizer step.
\<close>

definition update_interaction ::
  "hyper \<Rightarrow> dqn_mode \<Rightarrow> dqn_batch option \<Rightarrow> agent_state
     \<Rightarrow> error + (loss_value option \<times> agent_state)" where
  "update_interaction h mode sampled st =
     bind_err
       (if a2c h then
          bind_err (get_actor_critic_loss (discount_gamma h) (entropy_coeff h) (icm_module h)
                      (episode_get_batch (episode_storage st)))
            (\<lambda>interaction_loss.
               Inr (interaction_loss,
                    st\<lparr>episode_storage := episode_clear (episode_storage st)\<rparr>))
        else
          bind_err (get_dqn_loss (discount_gamma h) (double_dqn h) (icm_module h) mode (replay_len st)
                      (replay_batch_size h) sampled)
            (\<lambda>interaction_loss. Inr (interaction_loss, st)))
       (\<lambda>(interaction_loss, st1).
          (case interaction_loss of
             None \<Rightarrow> Inr (None, st1)
           | Some loss \<Rightarrow>
               Inr (Some loss,
                    st1\<lparr>backward_calls := backward_calls st1 + 1,
                        optimizer_steps := optimizer_steps st1 + 1\<rparr>)))"

section \<open>Reward assignment and pushing of Transitions (train.py, train)\<close>

text \<open>
  What one pass of the game step loop of \<open>train\<close> caches for the batch: the mask
  \<open>replay_info[-1]\<close> that \<open>agent.act\<close> returns (\<open>prev_step_is_still_interacting\<close>, one
  entry per game), the counting rewards \<open>c_rewards\<close> and the valid-command rewards
  \<open>vc_rewards\<close>. The texts, word indices and network outputs of \<open>replay_info\<close> are carried
  along unchanged and are left out. The reward that \<open>env.step\<close> returns is discarded by
  the source (\<open>obs, _, _, infos = env.step(commands)\<close>).
\<close>

record step_out =
  mask :: "real list"
  counting_reward :: "real list"
  valid_command_reward :: "real list"

text \<open>
  The loop \<open>for step_no in range(agent.max_nb_steps_per_episode)\<close>; \<open>outs step_no\<close> is
  what the agent and the environment produce at that step. At the last allowed step the
  mask is replaced by zeros ("force stopping"); the loop breaks there, and at any later step
  than the first whose mask sums to zero.
\<close>

fun run_steps :: "nat \<Rightarrow> (nat \<Rightarrow> step_out) \<Rightarrow> nat list \<Rightarrow> step_out list \<Rightarrow> step_out list" where
  "run_steps max_nb_steps outs [] transition_cache = transition_cache"
| "run_steps max_nb_steps outs (step_no # rest) transition_cache =
     (let info = outs step_no;
          info1 = (if int step_no = int max_nb_steps - 1
                   then info\<lparr>mask := map (\<lambda>x. 0) (mask info)\<rparr> else info);
          cache1 = transition_cache @ [info1]
      in if int step_no = int max_nb_steps - 1 \<or> (0 < step_no \<and> sum_list (mask info1) = 0)
         then cache1
         else run_steps max_nb_steps outs rest cache1)"

definition step_loop :: "nat \<Rightarrow> (nat \<Rightarrow> step_out) \<Rightarrow> step_out list" where
  "step_loop max_nb_steps outs = run_steps max_nb_steps outs [0..<max_nb_steps] []"

text \<open>
  \<open>np.stack(vs, 1)\<close> of a list of vectors with one entry per game: the
  \<open>batch x game step\<close> matrix; the same as \<open>np.stack(vs, 0).T\<close>.
\<close>

definition stack_axis1 :: "real list list \<Rightarrow> nat \<Rightarrow> real list list" where
  "stack_axis1 vs batch_size = map (\<lambda>b. map (\<lambda>v. v ! b) vs) [0..<batch_size]"

text \<open>A matrix has the given numbers of rows and columns.\<close>

definition has_shape :: "nat \<Rightarrow> nat \<Rightarrow> real list list \<Rightarrow> bool" where
  "has_shape rows cols M = (length M = rows \<and> list_all (\<lambda>r. length r = cols) M)"

text \<open>An entry-wise operation on two matrices of one shape.\<close>

definition mat_op :: "(real \<Rightarrow> real \<Rightarrow> real) \<Rightarrow> real list list \<Rightarrow> real list list \<Rightarrow> real list list" where
  "mat_op f A B = map2 (map2 f) A B"

text \<open>A matrix times a scalar.\<close>

definition mat_scale :: "real list list \<Rightarrow> real \<Rightarrow> real list list" where
  "mat_scale A c = map (map (\<lambda>x. x * c)) A"

text \<open>
  \<open>command_rewards\<close> as computed after the question is answered:
  \<open>sufficient_info_reward_np + counting_rewards_np * game_running_mask.T *
  agent.revisit_counting_lambda + valid_command_rewards_np * game_running_mask.T *
  agent.valid_command_bonus_lambda\<close>, plus \<open>intrinsic_rewards * game_running_mask.T\<close> when
  the curiosity module and \<open>use_intrinsic_reward\<close> are on (\<open>intrinsic_rewards\<close> is then
  \<open>Some\<close> matrix). \<open>sufficient_info_reward\<close> comes from \<open>reward_helper\<close>. All matrices
  are \<open>batch x game step\<close>; other shapes and an empty cache make NumPy raise.
\<close>

definition command_rewards ::
  "real \<Rightarrow> real \<Rightarrow> real list list \<Rightarrow> real list list option \<Rightarrow> step_out list \<Rightarrow> nat
     \<Rightarrow> error + real list list" where
  "command_rewards revisit_counting_lambda valid_command_bonus_lambda sufficient_info_reward
     intrinsic_rewards transition_cache batch_size =
     (let steps = length transition_cache;
          counting_rewards_np = stack_axis1 (map counting_reward transition_cache) batch_size;
          valid_command_rewards_np =
            stack_axis1 (map valid_command_reward transition_cache) batch_size;
          game_running_mask_T = stack_axis1 (map mask transition_cache) batch_size
      in if transition_cache \<noteq> []
            \<and> list_all (\<lambda>info. length (mask info) = batch_size
                           \<and> length (counting_reward info) = batch_size
                           \<and> length (valid_command_reward info) = batch_size) transition_cache
            \<and> has_shape batch_size steps sufficient_info_reward
            \<and> (case intrinsic_rewards of None \<Rightarrow> True
                | Some r \<Rightarrow> has_shape batch_size steps r)
         then
           (let command_rewards_np =
                  mat_op (+)
                    (mat_op (+) sufficient_info_reward
                       (mat_scale (mat_op (*) counting_rewards_np game_running_mask_T)
                          revisit_counting_lambda))
                    (mat_scale (mat_op (*) valid_command_rewards_np game_running_mask_T)
                       valid_command_bonus_lambda)
            in Inr (case intrinsic_rewards of
                      None \<Rightarrow> command_rewards_np
                    | Some r \<Rightarrow> mat_op (+) command_rewards_np (mat_op (*) r game_running_mask_T)))
         else Inl ValueError)"

text \<open>
  The fields of a pushed Transition that the properties below are about.
\<close>

record transition =
  reward :: real
  is_final :: bool

text \<open>
  The loop \<open>for i in range(len(transition_cache))\<close> for game \<open>b\<close>: every cached step is
  paired with its column \<open>command_rewards[:, i]\<close>; \<open>is_final\<close> is true unless the mask of
  the game is nonzero, and the loop breaks after pushing a step whose mask is zero.
\<close>

fun push_loop :: "nat \<Rightarrow> (step_out \<times> real list) list \<Rightarrow> transition list" where
  "push_loop b [] = []"
| "push_loop b ((info, step_rewards) # rest) =
     \<lparr>reward = step_rewards ! b, is_final = (if mask info ! b \<noteq> 0 then False else True)\<rparr>
       # (if mask info ! b = 0 then [] else push_loop b rest)"

text \<open>
  The Transitions pushed into the command-generation memory, game by game.
\<close>

definition push_games ::
  "real \<Rightarrow> real \<Rightarrow> real list list \<Rightarrow> real list list option \<Rightarrow> step_out list \<Rightarrow> nat
     \<Rightarrow> error + transition list list" where
  "push_games revisit_counting_lambda valid_command_bonus_lambda sufficient_info_reward
     intrinsic_rewards transition_cache batch_size =
     bind_err (command_rewards revisit_counting_lambda valid_command_bonus_lambda
                 sufficient_info_reward intrinsic_rewards transition_cache batch_size)
       (\<lambda>rs.
          (let cache1 = map (\<lambda>i. (transition_cache ! i, map (\<lambda>row. row ! i) rs))
                          [0..<length transition_cache]
           in Inr (map (\<lambda>b. push_loop b cache1) [0..<batch_size])))"

section \<open>Properties of the state-visitation counter\<close>

lemma loop_step:
  "i < length d \<Longrightarrow>
   binarized_count_loop upd i (key # rest) (acc, d) =
   binarized_count_loop upd (Suc i) rest
     (acc @ [count_reward upd (d ! i) key], d[i := count_store upd (d ! i) key])"
  by (cases "(d ! i) key"; cases upd)
     (simp_all add: count_reward_def count_store_def stored_count_def bump_def fun_upd_idem)

lemma loop_props:
  "i + length ks \<le> length d \<Longrightarrow>
   \<exists>rs d'. binarized_count_loop upd i ks (acc, d) = Inr (acc @ rs, d')
     \<and> length rs = length ks \<and> length d' = length d
     \<and> (\<forall>j<length ks. rs ! j = count_reward upd (d ! (i + j)) (ks ! j))
     \<and> (\<forall>j<length ks. d' ! (i + j) = count_store upd (d ! (i + j)) (ks ! j))
     \<and> (\<forall>j<length d. j < i \<or> i + length ks \<le> j \<longrightarrow> d' ! j = d ! j)"
proof (induction ks arbitrary: i acc d)
  case Nil
  then show ?case by simp
next
  case (Cons k ks)
  let ?d1 = "d[i := count_store upd (d ! i) k]"
  let ?a1 = "acc @ [count_reward upd (d ! i) k]"
  from Cons.prems have i: "i < length d" and le: "Suc i + length ks \<le> length ?d1" by simp_all
  from Cons.IH[OF le, of ?a1] obtain rs d' where
    run: "binarized_count_loop upd (Suc i) ks (?a1, ?d1) = Inr (?a1 @ rs, d')"
    and lrs: "length rs = length ks" and ld: "length d' = length d"
    and r: "\<forall>j<length ks. rs ! j = count_reward upd (?d1 ! (Suc i + j)) (ks ! j)"
    and s: "\<forall>j<length ks. d' ! (Suc i + j) = count_store upd (?d1 ! (Suc i + j)) (ks ! j)"
    and o: "\<forall>j<length ?d1. j < Suc i \<or> Suc i + length ks \<le> j \<longrightarrow> d' ! j = ?d1 ! j"
    by auto
  let ?rs = "count_reward upd (d ! i) k # rs"
  have 1: "binarized_count_loop upd i (k # ks) (acc, d) = Inr (acc @ ?rs, d')"
    using loop_step[OF i] run by simp
  have 2: "\<forall>j<length (k # ks). ?rs ! j = count_reward upd (d ! (i + j)) ((k # ks) ! j)"
  proof (intro allI impI)
    fix j assume "j < length (k # ks)"
    then show "?rs ! j = count_reward upd (d ! (i + j)) ((k # ks) ! j)"
      using r by (cases j) simp_all
  qed
  have 3: "\<forall>j<length (k # ks). d' ! (i + j) = count_store upd (d ! (i + j)) ((k # ks) ! j)"
  proof (intro allI impI)
    fix j assume "j < length (k # ks)"
    then show "d' ! (i + j) = count_store upd (d ! (i + j)) ((k # ks) ! j)"
      using s o i by (cases j) simp_all
  qed
  have 4: "\<forall>j<length d. j < i \<or> i + length (k # ks) \<le> j \<longrightarrow> d' ! j = d ! j"
    using o by auto
  show ?case using 1 2 3 4 lrs ld by (intro exI[of _ ?rs] exI[of _ d']) simp
qed

lemma get_binarized_count_props:
  assumes "length ks = length d"
  shows "\<exists>rs d'. get_binarized_count d ks upd = Inr (rs, d')
     \<and> length rs = length ks \<and> length d' = length d
     \<and> (\<forall>i<length ks. rs ! i = count_reward upd (d ! i) (ks ! i))
     \<and> (\<forall>i<length ks. d' ! i = count_store upd (d ! i) (ks ! i))"
proof -
  from assms have "0 + length ks \<le> length d" by simp
  from loop_props[OF this, of upd "[]"] show ?thesis
    unfolding get_binarized_count_def by auto
qed

lemma count_reward_counted:
  "(\<forall>c. di k = Some c \<longrightarrow> 1 \<le> c) \<Longrightarrow> count_reward True di k = (if k \<in> dom di then 0 else 1)"
  by (auto simp: count_reward_def stored_count_def bump_def split: option.splits)

lemma count_store_counted:
  "(\<forall>k c. di k = Some c \<longrightarrow> 1 \<le> c) \<Longrightarrow> count_store True di key k = Some c \<Longrightarrow> 1 \<le> c"
proof -
  assume a: "\<forall>k c. di k = Some c \<longrightarrow> 1 \<le> c" and b: "count_store True di key k = Some c"
  show "1 \<le> c"
  proof (cases "k = key")
    case True
    have "0 \<le> stored_count di key"
      using a by (cases "di key") (auto simp: stored_count_def dest: order_trans[OF zero_le_one])
    with b True show ?thesis by (simp add: count_store_def bump_def)
  next
    case False
    with a b show ?thesis by (simp add: count_store_def)
  qed
qed

lemma dom_count_store: "dom (count_store upd di key) = insert key (dom di)"
  by (simp add: count_store_def)

lemma count_episode_props:
  assumes "\<forall>ks\<in>set kss. length ks = length d" and "counted d"
  shows "\<exists>rss d'. count_episode d kss = Inr (rss, d') \<and> length rss = length kss
     \<and> (\<forall>t<length kss. length (rss ! t) = length d
          \<and> (\<forall>i<length d. rss ! t ! i =
                (if kss ! t ! i \<in> dom (d ! i) \<union> set (map (\<lambda>ks. ks ! i) (take t kss)) then 0 else 1)))"
  using assms
proof (induction kss arbitrary: d)
  case Nil
  then show ?case by simp
next
  case (Cons ks kss)
  from Cons.prems have len: "length ks = length d" by simp
  from get_binarized_count_props[OF len, of True] obtain rs d1 where
    call: "get_binarized_count d ks True = Inr (rs, d1)"
    and lrs: "length rs = length ks" and ld1: "length d1 = length d"
    and r: "\<forall>i<length ks. rs ! i = count_reward True (d ! i) (ks ! i)"
    and s: "\<forall>i<length ks. d1 ! i = count_store True (d ! i) (ks ! i)"
    by blast
  have c1: "counted d1"
    unfolding counted_def
  proof (intro allI impI)
    fix i k c assume i: "i < length d1" and "(d1 ! i) k = Some c"
    then have "count_store True (d ! i) (ks ! i) k = Some c" using s ld1 len by simp
    moreover have "\<forall>k c. (d ! i) k = Some c \<longrightarrow> 1 \<le> c"
      using Cons.prems(2) i ld1 by (simp add: counted_def)
    ultimately show "1 \<le> c" by (rule count_store_counted[rotated])
  qed
  have l1: "\<forall>ks\<in>set kss. length ks = length d1" using Cons.prems(1) ld1 by simp
  from Cons.IH[OF l1 c1] obtain rss d2 where
    run: "count_episode d1 kss = Inr (rss, d2)" and lrss: "length rss = length kss"
    and rr: "\<forall>t<length kss. length (rss ! t) = length d1
          \<and> (\<forall>i<length d1. rss ! t ! i =
                (if kss ! t ! i \<in> dom (d1 ! i) \<union> set (map (\<lambda>ks. ks ! i) (take t kss)) then 0 else 1))"
    by blast
  have 1: "count_episode d (ks # kss) = Inr (rs # rss, d2)" using call run by simp
  have 2: "\<forall>t<length (ks # kss). length ((rs # rss) ! t) = length d
          \<and> (\<forall>i<length d. (rs # rss) ! t ! i =
                (if (ks # kss) ! t ! i \<in> dom (d ! i) \<union> set (map (\<lambda>ks. ks ! i) (take t (ks # kss)))
                 then 0 else 1))"
  proof (intro allI impI)
    fix t assume t: "t < length (ks # kss)"
    show "length ((rs # rss) ! t) = length d
          \<and> (\<forall>i<length d. (rs # rss) ! t ! i =
                (if (ks # kss) ! t ! i \<in> dom (d ! i) \<union> set (map (\<lambda>ks. ks ! i) (take t (ks # kss)))
                 then 0 else 1))"
    proof (cases t)
      case 0
      have "\<forall>i<length d. rs ! i = (if ks ! i \<in> dom (d ! i) then 0 else 1)"
      proof (intro allI impI)
        fix i assume i: "i < length d"
        then have "\<forall>c. (d ! i) (ks ! i) = Some c \<longrightarrow> 1 \<le> c"
          using Cons.prems(2) by (simp add: counted_def)
        from count_reward_counted[of "d ! i" "ks ! i", OF this] r i len
        show "rs ! i = (if ks ! i \<in> dom (d ! i) then 0 else 1)" by simp
      qed
      with 0 lrs len show ?thesis by simp
    next
      case (Suc t')
      with t have t': "t' < length kss" by simp
      have "\<forall>i<length d. dom (d1 ! i) = insert (ks ! i) (dom (d ! i))"
        using s len by (simp add: dom_count_store)
      with rr[rule_format, OF t'] ld1 Suc show ?thesis by simp
    qed
  qed
  show ?case using 1 2 lrss by (intro exI[of _ "rs # rss"] exI[of _ d2]) simp
qed

lemma counted_reset: "counted (reset_binarized_counter n)"
  by (simp add: counted_def reset_binarized_counter_def)

lemma count_episode_three: "map_sum id fst (count_episode (reset_binarized_counter 1) [[k], [k], [k]]) = Inr [[1], [0], [0]]"
  by (simp add: reset_binarized_counter_def get_binarized_count_def)

text \<open>
  What the counter computes. One call of \<open>get_binarized_count\<close> on a batch of keys, with
  one dictionary per key, returns for game \<open>i\<close> the value 1.0 exactly when the stored count of
  the key (zero for an unseen key) plus the increment (one when \<open>update\<close> is true, zero
  otherwise) equals one, and leaves that sum stored under the key, whatever it returned.
  Hence, over an episode of calls with \<open>update=True\<close> that starts from
  \<open>reset_binarized_counter\<close>, the reward of game \<open>i\<close> at call \<open>t\<close> is 1.0 exactly when the
  key did not occur for game \<open>i\<close> in an earlier call, and 0.0 otherwise. The reset
  leaves \<open>n\<close> empty dictionaries, and visiting one key three times after a reset yields the
  rewards 1.0, 0.0, 0.0.
\<close>

theorem get_binarized_count_first_counted_visit:
  "(length ks = length d \<longrightarrow>
      (\<exists>rs d'. get_binarized_count d ks upd = Inr (rs, d')
         \<and> length rs = length ks \<and> length d' = length d
         \<and> (\<forall>i<length ks.
               rs ! i = (if stored_count (d ! i) (ks ! i) + bump upd = 1 then 1 else 0)
             \<and> d' ! i = (d ! i)(ks ! i \<mapsto> stored_count (d ! i) (ks ! i) + bump upd))))
   \<and> ((\<forall>ks\<in>set kss. length ks = n) \<longrightarrow>
      (\<exists>rss d'. count_episode (reset_binarized_counter n) kss = Inr (rss, d')
         \<and> length rss = length kss
         \<and> (\<forall>t<length kss. length (rss ! t) = n
              \<and> (\<forall>i<n. rss ! t ! i =
                    (if kss ! t ! i \<in> set (map (\<lambda>ks. ks ! i) (take t kss)) then 0 else 1)))))
   \<and> reset_binarized_counter n = replicate n Map.empty
   \<and> map_sum id fst (count_episode (reset_binarized_counter 1) [[k], [k], [k]])
       = Inr [[1], [0], [0]]"
proof (intro conjI impI)
  assume "length ks = length d"
  from get_binarized_count_props[OF this, of upd]
  show "\<exists>rs d'. get_binarized_count d ks upd = Inr (rs, d')
         \<and> length rs = length ks \<and> length d' = length d
         \<and> (\<forall>i<length ks.
               rs ! i = (if stored_count (d ! i) (ks ! i) + bump upd = 1 then 1 else 0)
             \<and> d' ! i = (d ! i)(ks ! i \<mapsto> stored_count (d ! i) (ks ! i) + bump upd))"
    unfolding count_reward_def count_store_def by blast
next
  assume "\<forall>ks\<in>set kss. length ks = n"
  then have l: "\<forall>ks\<in>set kss. length ks = length (reset_binarized_counter n)"
    by (simp add: reset_binarized_counter_def)
  have e: "\<forall>i<n. dom (reset_binarized_counter n ! i) = {}"
    by (simp add: reset_binarized_counter_def)
  have n: "length (reset_binarized_counter n) = n"
    by (simp add: reset_binarized_counter_def)
  from count_episode_props[OF l counted_reset] obtain rss d' where
    run: "count_episode (reset_binarized_counter n) kss = Inr (rss, d')"
    and lr: "length rss = length kss"
    and r: "\<forall>t<length kss. length (rss ! t) = length (reset_binarized_counter n)
          \<and> (\<forall>i<length (reset_binarized_counter n). rss ! t ! i =
                (if kss ! t ! i \<in> dom (reset_binarized_counter n ! i)
                      \<union> set (map (\<lambda>ks. ks ! i) (take t kss)) then 0 else 1))"
    by blast
  have "\<forall>t<length kss. length (rss ! t) = n
          \<and> (\<forall>i<n. rss ! t ! i =
                (if kss ! t ! i \<in> set (map (\<lambda>ks. ks ! i) (take t kss)) then 0 else 1))"
    using r e unfolding n by simp
  with run lr
  show "\<exists>rss d'. count_episode (reset_binarized_counter n) kss = Inr (rss, d')
         \<and> length rss = length kss
         \<and> (\<forall>t<length kss. length (rss ! t) = n
              \<and> (\<forall>i<n. rss ! t ! i =
                    (if kss ! t ! i \<in> set (map (\<lambda>ks. ks ! i) (take t kss)) then 0 else 1)))"
    by blast
next
  show "reset_binarized_counter n = replicate n Map.empty"
    by (simp add: reset_binarized_counter_def)
next
  show "map_sum id fst (count_episode (reset_binarized_counter 1) [[k], [k], [k]])
       = Inr [[1], [0], [0]]"
    by (rule count_episode_three)
qed

theorem get_binarized_count_first_counted_visit_witness:
  "length [''kitchen''] = length (reset_binarized_counter 1)
   \<and> map length [[''kitchen''], [''hall''], [''kitchen'']] = [1, 1, 1]
   \<and> (\<exists>rs d'. get_binarized_count (reset_binarized_counter 1) [''kitchen''] True = Inr (rs, d')
         \<and> rs ! 0 = 1 \<and> (d' ! 0) ''kitchen'' = Some 1)
   \<and> (\<exists>rss d'. count_episode (reset_binarized_counter 1) [[''kitchen''], [''hall''], [''kitchen'']]
                  = Inr (rss, d')
         \<and> rss ! 0 ! 0 = 1 \<and> rss ! 1 ! 0 = 1 \<and> rss ! 2 ! 0 = 0)"
proof -
  let ?ks = "[''kitchen'']" and ?kss = "[[''kitchen''], [''hall''], [''kitchen'']]"
  note T = get_binarized_count_first_counted_visit
             [of ?ks "reset_binarized_counter 1" True ?kss 1 "''kitchen''"]
  have h1: "length ?ks = length (reset_binarized_counter 1)"
    by (simp add: reset_binarized_counter_def)
  have h2: "\<forall>ks\<in>set ?kss. length ks = 1" by simp
  from T h1 obtain rs d' where
    c: "get_binarized_count (reset_binarized_counter 1) ?ks True = Inr (rs, d')"
    and p: "\<forall>i<length ?ks.
               rs ! i = (if stored_count (reset_binarized_counter 1 ! i) (?ks ! i) + bump True = 1
                         then 1 else 0)
             \<and> d' ! i = (reset_binarized_counter 1 ! i)
                 (?ks ! i \<mapsto> stored_count (reset_binarized_counter 1 ! i) (?ks ! i) + bump True)"
    by blast
  from p[rule_format, of 0] have p0: "rs ! 0 = 1 \<and> (d' ! 0) ''kitchen'' = Some 1"
    by (simp add: reset_binarized_counter_def stored_count_def bump_def)
  from T h2 obtain rss d'' where
    e: "count_episode (reset_binarized_counter 1) ?kss = Inr (rss, d'')"
    and q: "\<forall>t<length ?kss. length (rss ! t) = 1
              \<and> (\<forall>i<1. rss ! t ! i =
                    (if ?kss ! t ! i \<in> set (map (\<lambda>ks. ks ! i) (take t ?kss)) then 0 else 1))"
    by blast
  from q[rule_format, of 0] have q0: "rss ! 0 ! 0 = 1" by simp
  from q[rule_format, of 1] have q1: "rss ! 1 ! 0 = 1" by simp
  from q[rule_format, of 2] have q2: "rss ! 2 ! 0 = 0" by (simp add: numeral_2_eq_2)
  have h3: "map length ?kss = [1, 1, 1]" by simp
  from h1 h3 c p0 e q0 q1 q2 show ?thesis by blast
qed

text \<open>
  Claim C8. The claim is that \<open>get_binarized_count\<close> returns 1.0 exactly when the key is
  visited for the first time in the current episode, and the docstring of the function that
  \<open>update\<close> only decides whether the dictionary of visited states is updated. The code does
  neither when \<open>update\<close> is false: on the first visit of the key \<open>kitchen\<close> after
  \<open>reset_binarized_counter\<close> the call with \<open>update=False\<close> returns 0.0 and stores the key with
  the count 0.0, where the call with \<open>update=True\<close> on the same state returns 1.0 and stores
  the count 1.0.
\<close>

theorem get_binarized_count_update_false_first_visit:
  "get_binarized_count (reset_binarized_counter 1) [''kitchen''] False
     = Inr ([0], [[''kitchen'' \<mapsto> 0]])
   \<and> get_binarized_count (reset_binarized_counter 1) [''kitchen''] True
     = Inr ([1], [[''kitchen'' \<mapsto> 1]])"
  by (simp add: reset_binarized_counter_def get_binarized_count_def)

section \<open>Properties of the actor-critic loss\<close>

lemma returns_loop_fold:
  "i + length xs \<le> length rf \<Longrightarrow>
   returns_loop g rf i xs (G, acc) = Inr (fold (ret_step g) (zip xs (drop i rf)) (G, acc))"
proof (induction xs arbitrary: i G acc)
  case Nil
  then show ?case by simp
next
  case (Cons x xs)
  then have i: "i < length rf" and le: "Suc i + length xs \<le> length rf" by simp_all
  from i have d: "drop i rf = rf ! i # drop (Suc i) rf" by (simp add: Cons_nth_drop_Suc)
  show ?case using i Cons.IH[OF le] by (simp add: d ret_step_def Let_def)
qed

lemma fold_ret_step_rev:
  "fold (ret_step g) (rev ps) (0, []) =
     ((case discounted_returns g ps of [] \<Rightarrow> 0 | G # _ \<Rightarrow> G), discounted_returns g ps)"
proof (induction ps)
  case Nil
  then show ?case by simp
next
  case (Cons p ps)
  obtain r f where p: "p = (r, f)" by (cases p)
  show ?case using Cons by (simp add: p ret_step_def Let_def)
qed

lemma length_discounted_returns [simp]: "length (discounted_returns g ps) = length ps"
  by (induction ps) auto

lemma discounted_returns_nth:
  "t < length ps \<Longrightarrow>
   discounted_returns g ps ! t =
     fst (ps ! t) + g * (if snd (ps ! t) \<or> Suc t = length ps then 0
                         else discounted_returns g ps ! Suc t)"
proof (induction ps arbitrary: t)
  case Nil
  then show ?case by simp
next
  case (Cons p ps)
  obtain r f where p: "p = (r, f)" by (cases p)
  show ?case
  proof (cases t)
    case 0
    show ?thesis
    proof (cases "discounted_returns g ps")
      case Nil
      then have "length ps = 0" by (metis length_discounted_returns list.size(3))
      with 0 Nil show ?thesis by (simp add: p)
    next
      case (Cons G Gs)
      then have "ps \<noteq> []" by auto
      with 0 Cons show ?thesis by (simp add: p)
    qed
  next
    case (Suc t')
    with Cons.prems have "t' < length ps" by simp
    from Cons.IH[OF this] Suc show ?thesis by (simp add: p)
  qed
qed

lemma mc_returns_eq:
  assumes "length finals = length rews" and "rews \<noteq> []"
  shows "mc_returns g rews finals = Inr (discounted_returns g (zip rews finals))"
proof -
  have "0 + length (rev rews) \<le> length (rev finals)" using assms by simp
  from returns_loop_fold[OF this, of g 0 "[]"]
  have "returns_loop g (rev finals) 0 (rev rews) (0, []) =
          Inr (fold (ret_step g) (rev (zip rews finals)) (0, []))"
    using assms by (simp add: zip_rev)
  moreover have "discounted_returns g (zip rews finals) \<noteq> []"
    using assms by (metis length_discounted_returns length_zip list.size(3) min.idem length_0_conv)
  ultimately show ?thesis
    by (simp add: mc_returns_def bind_err_def fold_ret_step_rev stack_def)
qed

text \<open>
  Claim C1. On a stored episode with as many terminal flags as rewards, the returns loop of
  \<open>get_actor_critic_loss\<close> yields one return per step, with
  \<open>G_t = r_t + \<gamma> G_{t+1}\<close> where \<open>G\<close> is reset to 0 at a terminal flag before that step's
  reward is added (and is 0 past the end); for the rewards 1, 1, 1, only the last step
  terminal and \<open>\<gamma> = 0.5\<close>, the returns are 1.75, 1.5, 1.0.
\<close>

theorem mc_returns_backward_recursion:
  assumes "length finals = length rews" and "rews \<noteq> []"
  shows "(\<exists>G. mc_returns g rews finals = Inr G \<and> length G = length rews
            \<and> (\<forall>t<length rews.
                  G ! t = rews ! t + g * (if finals ! t \<or> Suc t = length rews then 0
                                          else G ! Suc t)))
         \<and> mc_returns (1/2) [1, 1, 1] [False, False, True] = Inr [7/4, 3/2, 1]"
proof
  let ?ps = "zip rews finals"
  let ?G = "discounted_returns g ?ps"
  have l: "length ?ps = length rews" using assms by simp
  have "\<forall>t<length rews.
          ?G ! t = rews ! t + g * (if finals ! t \<or> Suc t = length rews then 0 else ?G ! Suc t)"
  proof (intro allI impI)
    fix t assume t: "t < length rews"
    then have "t < length ?ps" using l by simp
    from discounted_returns_nth[OF this, of g] t assms l
    show "?G ! t = rews ! t + g * (if finals ! t \<or> Suc t = length rews then 0 else ?G ! Suc t)"
      by simp
  qed
  then show "\<exists>G. mc_returns g rews finals = Inr G \<and> length G = length rews
            \<and> (\<forall>t<length rews.
                  G ! t = rews ! t + g * (if finals ! t \<or> Suc t = length rews then 0
                                          else G ! Suc t))"
    using mc_returns_eq[OF assms, of g] l by simp
next
  show "mc_returns (1/2) [1, 1, 1] [False, False, True] = Inr [7/4, 3/2, 1]"
    by (simp add: mc_returns_def bind_err_def stack_def Let_def)
qed

theorem mc_returns_backward_recursion_witness:
  "length [False, True, False, False] = length [1, 2, 3, 4 :: real]
   \<and> [1, 2, 3, 4 :: real] \<noteq> []
   \<and> mc_returns (1/2) [1, 2, 3, 4] [False, True, False, False] = Inr [2, 2, 5, 4]
   \<and> mc_returns (1/2) [1, 1, 1] [False, False, True] = Inr [7/4, 3/2, 1]"
proof -
  have h1: "length [False, True, False, False] = length [1, 2, 3, 4 :: real]" by simp
  have h2: "[1, 2, 3, 4 :: real] \<noteq> []" by simp
  note T = mc_returns_backward_recursion[OF h1 h2, of "1/2"]
  from T obtain G where
    r: "mc_returns (1/2) [1, 2, 3, 4] [False, True, False, False] = Inr G"
    and l: "length G = length [1, 2, 3, 4 :: real]"
    and p: "\<forall>t<length [1, 2, 3, 4 :: real].
              G ! t = [1, 2, 3, 4] ! t
                + (1/2) * (if [False, True, False, False] ! t \<or> Suc t = length [1, 2, 3, 4 :: real]
                           then 0 else G ! Suc t)"
    by blast
  have c: "mc_returns (1/2) [1, 2, 3, 4] [False, True, False, False] = Inr [2, 2, 5, 4]"
    by (simp add: mc_returns_def bind_err_def stack_def Let_def)
  from r c have "G = [2, 2, 5, 4]" by simp
  with r h1 h2 T show ?thesis by simp
qed

lemma advantage_eq:
  assumes "length returns = length vals" and "length finals = length vals" and "vals \<noteq> []"
  shows "advantage returns vals finals =
           Inr (map2 (-) returns (map2 (*) vals (finals_mask finals)))"
  using assms by (simp add: advantage_def bind_err_def stack_def tensor_op_def finals_mask_def)

text \<open>
  Claim C4. The advantage of every step \<open>t\<close> is \<open>A_t = G_t - V_t * mask_t\<close> with
  \<open>mask_t = 1 - is_final_t\<close>: on a terminal step the advantage is the return itself, the
  state value being zeroed and the return left as it is; on any other step it is
  \<open>G_t - V_t\<close>.
\<close>

theorem advantage_masks_value_only:
  assumes "length returns = length vals" and "length finals = length vals" and "vals \<noteq> []"
  shows "\<exists>A. advantage returns vals finals = Inr A \<and> length A = length vals
           \<and> (\<forall>t<length vals.
                 A ! t = returns ! t - vals ! t * (1 - (if finals ! t then 1 else 0))
               \<and> A ! t = (if finals ! t then returns ! t else returns ! t - vals ! t))"
proof -
  let ?A = "map2 (-) returns (map2 (*) vals (finals_mask finals))"
  have "length ?A = length vals" using assms by (simp add: finals_mask_def)
  moreover have "\<forall>t<length vals.
                 ?A ! t = returns ! t - vals ! t * (1 - (if finals ! t then 1 else 0))
               \<and> ?A ! t = (if finals ! t then returns ! t else returns ! t - vals ! t)"
    using assms by (simp add: finals_mask_def)
  ultimately show ?thesis using advantage_eq[OF assms] by blast
qed

theorem advantage_masks_value_only_witness:
  "length [7/4, 3/2, 1 :: real] = length [10, 20, 30 :: real]
   \<and> length [False, False, True] = length [10, 20, 30 :: real]
   \<and> [10, 20, 30 :: real] \<noteq> []
   \<and> advantage [7/4, 3/2, 1] [10, 20, 30] [False, False, True] = Inr [- 33/4, - 37/2, 1]"
proof -
  have h1: "length [7/4, 3/2, 1 :: real] = length [10, 20, 30 :: real]" by simp
  have h2: "length [False, False, True] = length [10, 20, 30 :: real]" by simp
  have h3: "[10, 20, 30 :: real] \<noteq> []" by simp
  from advantage_masks_value_only[OF h1 h2 h3] obtain A where
    r: "advantage [7/4, 3/2, 1] [10, 20, 30] [False, False, True] = Inr A" by blast
  have "advantage [7/4, 3/2, 1] [10, 20, 30] [False, False, True] = Inr [- 33/4, - 37/2, 1]"
    by (simp add: advantage_def bind_err_def stack_def tensor_op_def finals_mask_def)
  with r h1 h2 h3 show ?thesis by simp
qed

lemma concat_loop_eq:
  "i + length logs \<le> length ents \<Longrightarrow> \<forall>r\<in>set logs. r \<noteq> [] \<Longrightarrow> \<forall>r\<in>set ents. r \<noteq> [] \<Longrightarrow>
   concat_loop ents i logs (ce, cp) = Inr (ce @ take (length logs) (drop i ents), cp @ logs)"
proof (induction logs arbitrary: i ce cp)
  case Nil
  then show ?case by simp
next
  case (Cons l logs)
  then have i: "i < length ents" and le: "Suc i + length logs \<le> length ents" by simp_all
  from i have d: "drop i ents = ents ! i # drop (Suc i) ents" by (simp add: Cons_nth_drop_Suc)
  from i Cons.prems(3) have ne: "ents ! i \<noteq> []" by simp
  from Cons.prems(2) have nl: "l \<noteq> []" and rest: "\<forall>r\<in>set logs. r \<noteq> []" by simp_all
  show ?case
    using i ne nl Cons.IH[OF le rest Cons.prems(3)]
    by (simp add: d bind_err_def stack_def)
qed

lemma stack_rows_ok:
  "rows \<noteq> [] \<Longrightarrow> \<forall>r\<in>set rows. length r = n \<Longrightarrow> stack_rows rows = Inr rows"
  by (cases rows) (auto simp: stack_rows_def list_all_iff)

lemma column_ok:
  "\<forall>r\<in>set rows. length r = 3 \<Longrightarrow> s < 3 \<Longrightarrow> column s rows = Inr (map (\<lambda>r. r ! s) rows)"
  by (simp add: column_def list_all_iff)

lemma policy_term:
  "length probs = length adv \<Longrightarrow>
   tensor_op (*) (map (uminus \<circ> (\<lambda>r. r ! s)) probs) adv
     = Inr (map2 (\<lambda>lp a. - (lp ! s * a)) probs adv)"
  by (simp add: tensor_op_def zip_map1 split_def)

lemma policy_loop_three:
  assumes "\<forall>r\<in>set probs. length r = 3" and "length probs = length adv"
  shows "policy_loop probs adv [0..<3] (Finite 0) = Inr (policy_loss_half probs adv)"
proof -
  have u: "[0..<3] = [0, 1, 2]" by (simp add: upt_rec)
  show ?thesis
    unfolding u policy_loss_half_def slot_loss_def
    using assms by (simp add: bind_err_def column_ok policy_term)
qed

lemma policy_loss_half_exact:
  assumes "to_float16 (slot_loss lps A 0) = Finite (slot_loss lps A 0)"
    and "to_float16 (slot_loss lps A 0 + slot_loss lps A 1)
           = Finite (slot_loss lps A 0 + slot_loss lps A 1)"
    and "to_float16 (slot_loss lps A 0 + slot_loss lps A 1 + slot_loss lps A 2)
           = Finite (slot_loss lps A 0 + slot_loss lps A 1 + slot_loss lps A 2)"
  shows "policy_loss_half lps A = Finite (policy_loss_spec lps A)"
  using assms by (simp add: policy_loss_half_def half_add_def policy_loss_spec_def slot_loss_def)

text \<open>
  Claim C5, as the code has it. On a well-formed episode batch (every column as long as the
  rewards, three log-probabilities and three entropies per step) the loss of
  \<open>get_actor_critic_loss\<close> is policy loss + value loss - entropy_coeff * entropy (mixed with
  the curiosity loss by the module's two weights when that module is on), where the value
  loss is half the mean squared advantage of claim C4, the entropy is the mean of the stored
  per-slot entropies, and the policy loss is accumulated in half precision: the means of
  minus the log-probability times the advantage of the three command slots are added one
  after the other and every partial sum is rounded to \<open>float16\<close>, the loss being non-finite
  once a partial sum leaves the range of \<open>float16\<close>. The policy loss is the exact sum over
  the three slots whenever the three partial sums are \<open>float16\<close> numbers.
\<close>

theorem actor_critic_loss_half_precision:
  assumes "length (state_values b) = length (rewards b)"
    and "length (is_finals b) = length (rewards b)"
    and "length (action_log_probs b) = length (rewards b)"
    and "length (action_entropies b) = length (rewards b)"
    and "rewards b \<noteq> []"
    and "\<forall>r\<in>set (action_log_probs b). length r = 3"
    and "\<forall>r\<in>set (action_entropies b). length r = 3"
  shows "\<exists>G A. mc_returns g (rewards b) (is_finals b) = Inr G
           \<and> advantage G (state_values b) (is_finals b) = Inr A
           \<and> get_actor_critic_loss g coeff icm (Some b) =
               Inr (Some (map_loss
                 (\<lambda>p. mix_icm icm
                        (p + value_loss_spec A - coeff * entropy_spec (action_entropies b)))
                 (policy_loss_half (action_log_probs b) A)))
           \<and> (to_float16 (slot_loss (action_log_probs b) A 0)
                 = Finite (slot_loss (action_log_probs b) A 0)
               \<and> to_float16 (slot_loss (action_log_probs b) A 0
                              + slot_loss (action_log_probs b) A 1)
                 = Finite (slot_loss (action_log_probs b) A 0
                           + slot_loss (action_log_probs b) A 1)
               \<and> to_float16 (slot_loss (action_log_probs b) A 0
                              + slot_loss (action_log_probs b) A 1
                              + slot_loss (action_log_probs b) A 2)
                 = Finite (slot_loss (action_log_probs b) A 0
                           + slot_loss (action_log_probs b) A 1
                           + slot_loss (action_log_probs b) A 2)
               \<longrightarrow> get_actor_critic_loss g coeff None (Some b) =
                     Inr (Some (Finite
                       (policy_loss_spec (action_log_probs b) A + value_loss_spec A
                          - coeff * entropy_spec (action_entropies b)))))"
proof -
  let ?G = "discounted_returns g (zip (rewards b) (is_finals b))"
  let ?A = "map2 (-) ?G (map2 (*) (state_values b) (finals_mask (is_finals b)))"
  have G: "mc_returns g (rewards b) (is_finals b) = Inr ?G"
    using assms(2,5) by (rule mc_returns_eq)
  have lG: "length ?G = length (state_values b)" using assms(1,2) by simp
  have vne: "state_values b \<noteq> []" using assms(1,5) by auto
  have A: "advantage ?G (state_values b) (is_finals b) = Inr ?A"
    using lG assms(1,2) vne by (intro advantage_eq) simp_all
  have lA: "length (action_log_probs b) = length ?A"
    using assms(1,2,3) by (simp add: finals_mask_def)
  have ne1: "\<forall>r\<in>set (action_log_probs b). r \<noteq> []" using assms(6) by auto
  have ne2: "\<forall>r\<in>set (action_entropies b). r \<noteq> []" using assms(7) by auto
  have "0 + length (action_log_probs b) \<le> length (action_entropies b)"
    using assms(3,4) by simp
  from concat_loop_eq[OF this ne1 ne2, of "[]" "[]"]
  have C: "concat_loop (action_entropies b) 0 (action_log_probs b) ([], [])
             = Inr (action_entropies b, action_log_probs b)"
    using assms(3,4) by simp
  have E: "stack_rows (action_entropies b) = Inr (action_entropies b)"
    using assms(4,5,7) by (intro stack_rows_ok[where n = 3]) auto
  have P: "stack_rows (action_log_probs b) = Inr (action_log_probs b)"
    using assms(3,5,6) by (intro stack_rows_ok[where n = 3]) auto
  have L: "policy_loop (action_log_probs b) ?A [0..<3] (Finite 0)
             = Inr (policy_loss_half (action_log_probs b) ?A)"
    using assms(6) lA by (rule policy_loop_three)
  have V: "0.5 * mean (map (\<lambda>a. a ^ 2) ?A) = value_loss_spec ?A"
    by (simp add: value_loss_spec_def power2_eq_square)
  have M: "map_loss f1 (map_loss f2 l) = map_loss (\<lambda>p. f1 (f2 p)) l" for f1 f2 l
    by (cases l) (simp_all add: map_loss_def)
  have R: "get_actor_critic_loss g coeff i (Some b) =
             Inr (Some (map_loss
               (\<lambda>p. mix_icm i
                      (p + value_loss_spec ?A - coeff * entropy_spec (action_entropies b)))
               (policy_loss_half (action_log_probs b) ?A)))" for i
    unfolding get_actor_critic_loss_def
    by (simp only: option.case G A C E P L bind_err_def sum.case prod.case Let_def V M
          entropy_spec_def)
  have N: "mix_icm None x = x" for x by (simp add: mix_icm_def)
  have X: "get_actor_critic_loss g coeff None (Some b) =
             Inr (Some (Finite
               (policy_loss_spec (action_log_probs b) ?A + value_loss_spec ?A
                  - coeff * entropy_spec (action_entropies b))))"
    if "to_float16 (slot_loss (action_log_probs b) ?A 0)
          = Finite (slot_loss (action_log_probs b) ?A 0)
        \<and> to_float16 (slot_loss (action_log_probs b) ?A 0 + slot_loss (action_log_probs b) ?A 1)
          = Finite (slot_loss (action_log_probs b) ?A 0 + slot_loss (action_log_probs b) ?A 1)
        \<and> to_float16 (slot_loss (action_log_probs b) ?A 0 + slot_loss (action_log_probs b) ?A 1
                       + slot_loss (action_log_probs b) ?A 2)
          = Finite (slot_loss (action_log_probs b) ?A 0 + slot_loss (action_log_probs b) ?A 1
                    + slot_loss (action_log_probs b) ?A 2)"
  proof -
    from that have "policy_loss_half (action_log_probs b) ?A
                      = Finite (policy_loss_spec (action_log_probs b) ?A)"
      by (intro policy_loss_half_exact) simp_all
    then show ?thesis unfolding R[of None] N by (simp add: map_loss_def)
  qed
  from G A R[of icm] X show ?thesis by blast
qed

theorem actor_critic_loss_half_precision_witness:
  "length (state_values \<lparr>rewards = [1, 1, 1], state_values = [3/4, 1/2, 0],
       action_log_probs = [[- 1, - 2, - 3], [- 1, - 2, - 3], [- 1, - 2, - 3]],
       action_entropies = [[1, 1, 1], [1, 1, 1], [1, 1, 1]],
       is_finals = [False, False, True]\<rparr>) = 3
   \<and> list_all (\<lambda>r. length r = 3) [[- 1, - 2, - 3], [- 1, - 2, - 3], [- 1, - 2, - 3 :: real]]
   \<and> list_all (\<lambda>r. length r = 3) [[1, 1, 1], [1, 1, 1], [1, 1, 1 :: real]]
   \<and> advantage [7/4, 3/2, 1] [3/4, 1/2, 0] [False, False, True] = Inr [1, 1, 1]
   \<and> slot_loss [[- 1, - 2, - 3], [- 1, - 2, - 3], [- 1, - 2, - 3]] [1, 1, 1] 0 = 1
   \<and> slot_loss [[- 1, - 2, - 3], [- 1, - 2, - 3], [- 1, - 2, - 3]] [1, 1, 1] 1 = 2
   \<and> slot_loss [[- 1, - 2, - 3], [- 1, - 2, - 3], [- 1, - 2, - 3]] [1, 1, 1] 2 = 3
   \<and> to_float16 1 = Finite 1 \<and> to_float16 (1 + 2) = Finite (1 + 2)
   \<and> to_float16 (1 + 2 + 3) = Finite (1 + 2 + 3)
   \<and> get_actor_critic_loss (1/2) (1/2) None
        (Some \<lparr>rewards = [1, 1, 1], state_values = [3/4, 1/2, 0],
           action_log_probs = [[- 1, - 2, - 3], [- 1, - 2, - 3], [- 1, - 2, - 3]],
           action_entropies = [[1, 1, 1], [1, 1, 1], [1, 1, 1]],
           is_finals = [False, False, True]\<rparr>)
       = Inr (Some (Finite 6))"
proof -
  let ?lp = "[[- 1, - 2, - 3], [- 1, - 2, - 3], [- 1, - 2, - 3 :: real]]"
  let ?b = "\<lparr>rewards = [1, 1, 1], state_values = [3/4, 1/2, 0],
       action_log_probs = ?lp,
       action_entropies = [[1, 1, 1], [1, 1, 1], [1, 1, 1]],
       is_finals = [False, False, True]\<rparr>"
  have h1: "length (state_values ?b) = length (rewards ?b)" by simp
  have h2: "length (is_finals ?b) = length (rewards ?b)" by simp
  have h3: "length (action_log_probs ?b) = length (rewards ?b)" by simp
  have h4: "length (action_entropies ?b) = length (rewards ?b)" by simp
  have h5: "rewards ?b \<noteq> []" by simp
  have h6: "\<forall>r\<in>set (action_log_probs ?b). length r = 3" by simp
  have h7: "\<forall>r\<in>set (action_entropies ?b). length r = 3" by simp
  from actor_critic_loss_half_precision[OF h1 h2 h3 h4 h5 h6 h7, of "1/2" "1/2" None]
  obtain G A where
    G: "mc_returns (1/2) (rewards ?b) (is_finals ?b) = Inr G"
    and A: "advantage G (state_values ?b) (is_finals ?b) = Inr A"
    and X: "to_float16 (slot_loss (action_log_probs ?b) A 0)
                 = Finite (slot_loss (action_log_probs ?b) A 0)
               \<and> to_float16 (slot_loss (action_log_probs ?b) A 0
                              + slot_loss (action_log_probs ?b) A 1)
                 = Finite (slot_loss (action_log_probs ?b) A 0
                           + slot_loss (action_log_probs ?b) A 1)
               \<and> to_float16 (slot_loss (action_log_probs ?b) A 0
                              + slot_loss (action_log_probs ?b) A 1
                              + slot_loss (action_log_probs ?b) A 2)
                 = Finite (slot_loss (action_log_probs ?b) A 0
                           + slot_loss (action_log_probs ?b) A 1
                           + slot_loss (action_log_probs ?b) A 2)
               \<longrightarrow> get_actor_critic_loss (1/2) (1/2) None (Some ?b) =
                     Inr (Some (Finite
                       (policy_loss_spec (action_log_probs ?b) A + value_loss_spec A
                          - (1/2) * entropy_spec (action_entropies ?b))))"
    by blast
  have "mc_returns (1/2) (rewards ?b) (is_finals ?b) = Inr [7/4, 3/2, 1]"
    by (simp add: mc_returns_def bind_err_def stack_def Let_def)
  with G have G': "G = [7/4, 3/2, 1]" by simp
  have adv: "advantage [7/4, 3/2, 1] [3/4, 1/2, 0] [False, False, True] = Inr [1, 1, 1]"
    by (simp add: advantage_def bind_err_def stack_def tensor_op_def finals_mask_def)
  with A G' have A': "A = [1, 1, 1]" by simp
  have s0: "slot_loss ?lp [1, 1, 1] 0 = 1"
    and s1: "slot_loss ?lp [1, 1, 1] 1 = 2"
    and s2: "slot_loss ?lp [1, 1, 1] 2 = 3"
    by (simp_all add: slot_loss_def mean_def)
  have r1: "to_float16 1 = Finite 1" and r3: "to_float16 (1 + 2) = Finite (1 + 2)"
    and r6: "to_float16 (1 + 2 + 3) = Finite (1 + 2 + 3)"
    by (simp_all add: to_float16_def ulp16_def round_even_def eval_nat_numeral)
  have lp: "action_log_probs ?b = ?lp" by simp
  have p: "policy_loss_spec ?lp [1, 1, 1] = 6"
    by (simp add: policy_loss_spec_def mean_def)
  have v: "value_loss_spec [1, 1, 1] = 1 / 2" by (simp add: value_loss_spec_def mean_def)
  have e: "entropy_spec (action_entropies ?b) = 1" by (simp add: entropy_spec_def mean_def)
  from X have L: "get_actor_critic_loss (1/2) (1/2) None (Some ?b) = Inr (Some (Finite 6))"
    unfolding A' lp s0 s1 s2 p v e using r1 r3 r6 by simp
  have l3: "length (state_values ?b) = 3" by simp
  have a1: "list_all (\<lambda>r. length r = 3) ?lp" by simp
  have a2: "list_all (\<lambda>r. length r = 3) [[1, 1, 1], [1, 1, 1], [1, 1, 1 :: real]]" by simp
  from l3 a1 a2 adv s0 s1 s2 r1 r3 r6 L show ?thesis by blast
qed

text \<open>
  Claim C5 as stated fails where a partial sum of the policy loss is not a \<open>float16\<close>
  number. One step with reward 2049, state value 0, terminal, log-probabilities -1, 0, 0:
  the advantage is 2049, the slot means are 2049, 0, 0, and the half-precision accumulator
  holds 2048; with the value loss 2099200.5 the code returns 2101248.5, where the sum of the
  claim is 2101249.5.
\<close>

theorem actor_critic_loss_float16_counterexample:
  "get_actor_critic_loss (1/2) 0 None
     (Some \<lparr>rewards = [2049], state_values = [0], action_log_probs = [[- 1, 0, 0]],
            action_entropies = [[0, 0, 0]], is_finals = [True]\<rparr>)
     = Inr (Some (Finite (4202497 / 2)))
   \<and> policy_loss_spec [[- 1, 0, 0]] [2049] + value_loss_spec [2049]
       - 0 * entropy_spec [[0, 0, 0]] = 4202499 / 2"
proof -
  have r: "to_float16 2049 = Finite 2048" and r': "to_float16 2048 = Finite 2048"
    by (simp_all add: to_float16_def ulp16_def round_even_def eval_nat_numeral)
  have u: "[0..<3] = [0, 1, 2]" by (simp add: upt_rec)
  show ?thesis
    by (simp add: get_actor_critic_loss_def mc_returns_def advantage_def bind_err_def stack_def
          stack_rows_def tensor_op_def finals_mask_def column_def u half_add_def mean_def r r'
          map_loss_def mix_icm_def Let_def policy_loss_spec_def value_loss_spec_def
          entropy_spec_def power2_eq_square)
qed

section \<open>Properties of the greedy command choice\<close>

lemma map_err_Inr:
  "map_err f xs = Inr ys \<Longrightarrow> length ys = length xs \<and> (\<forall>k<length xs. f (xs ! k) = Inr (ys ! k))"
proof (induction xs arbitrary: ys)
  case Nil
  then show ?case by simp
next
  case (Cons x xs)
  from Cons.prems obtain y ys' where fx: "f x = Inr y" and r: "map_err f xs = Inr ys'"
    and ys: "ys = y # ys'"
    by (auto split: sum.splits)
  from Cons.IH[OF r] have l: "length ys' = length xs"
    and n: "\<forall>k<length xs. f (xs ! k) = Inr (ys' ! k)" by simp_all
  show ?case
  proof (intro conjI allI impI)
    show "length ys = length (x # xs)" using l ys by simp
  next
    fix k assume "k < length (x # xs)"
    then show "f ((x # xs) ! k) = Inr (ys ! k)"
      using fx n ys by (cases k) simp_all
  qed
qed

lemma finite_scores_Fin: "finite_scores (map Fin xs) = xs"
  by (induction xs) simp_all

lemma first_index_Fin:
  "first_index (Fin y) (map Fin xs) = length (takeWhile (\<lambda>x. x \<noteq> y) xs)"
  by (simp add: first_index_def takeWhile_map o_def)

lemma argmax_Fin:
  assumes "argmax (map Fin xs) = Inr a"
  shows "a < length xs \<and> (\<forall>j<length xs. xs ! j \<le> xs ! a)"
proof -
  from assms have ne: "xs \<noteq> []" by (auto simp: argmax_def split: if_splits)
  then obtain y ys where c: "xs = y # ys" by (cases xs) simp_all
  have n1: "NaN \<notin> set (map Fin xs)" and n2: "PInf \<notin> set (map Fin xs)" by auto
  have "argmax (map Fin xs) = Inr (first_index (Fin (Max (set xs))) (map Fin xs))"
    unfolding argmax_def finite_scores_Fin using ne n1 n2 c by simp
  with assms have a: "a = length (takeWhile (\<lambda>x. x \<noteq> Max (set xs)) xs)"
    by (simp add: first_index_Fin)
  have "Max (set xs) \<in> set xs" using ne by (intro Max_in) simp_all
  then have "takeWhile (\<lambda>x. x \<noteq> Max (set xs)) xs \<noteq> xs"
    by (simp add: takeWhile_eq_all_conv)
  then have "length (takeWhile (\<lambda>x. x \<noteq> Max (set xs)) xs) \<noteq> length xs"
    by (metis takeWhile_eq_take take_all order_refl)
  moreover have "length (takeWhile (\<lambda>x. x \<noteq> Max (set xs)) xs) \<le> length xs"
    by (rule length_takeWhile_le)
  ultimately have lt: "a < length xs" unfolding a by linarith
  then have "\<not> (xs ! a \<noteq> Max (set xs))"
    unfolding a by (rule nth_length_takeWhile)
  then have "xs ! a = Max (set xs)" by simp
  then show ?thesis using lt by simp
qed

lemma shift_row_in_range:
  assumes "shift_row ar = Inr sh"
    and rng: "\<forall>x\<in>set ar. x - Min (set ar) < float32_overflow"
  shows "sh = map Fin (map (\<lambda>x. x - Min (set ar) + 1 / 100) ar)"
proof -
  from assms(1)
  have sh: "sh = map (\<lambda>x. if float32_overflow \<le> x - Min (set ar) then PInf
                          else Fin (x - Min (set ar) + 1 / 100)) ar"
    by (auto simp: shift_row_def split: if_splits)
  have "\<not> float32_overflow \<le> x - Min (set ar)" if "x \<in> set ar" for x
    using rng that by (simp add: not_le)
  then show ?thesis unfolding sh by simp
qed

lemma shifted_positive:
  fixes ar :: "real list"
  shows "\<forall>k<length ar. 0 < map (\<lambda>x. x - Min (set ar) + 1 / 100) ar ! k"
proof -
  have "\<forall>k<length ar. Min (set ar) \<le> ar ! k" by simp
  then have "\<forall>k<length ar. 0 < ar ! k - Min (set ar) + 1 / 100"
    by (auto intro: add_nonneg_pos)
  then show ?thesis by simp
qed

lemma times_mask_Fin:
  "map2 times_mask (map Fin xs) m = map Fin (map2 (*) xs m)"
proof (induction xs arbitrary: m)
  case Nil
  then show ?case by simp
next
  case (Cons x xs)
  then show ?case by (cases m) (simp_all add: times_mask_def)
qed

lemma masked_argmax_allowed:
  assumes sh: "shift_row ar = Inr sh"
    and rng: "\<forall>x\<in>set ar. x - Min (set ar) < float32_overflow"
    and len: "length m = length sh"
    and a: "argmax (map2 times_mask sh m) = Inr a"
    and bin: "\<forall>k<length m. m ! k = 0 \<or> m ! k = 1"
    and some: "k < length m" "m ! k \<noteq> 0"
  shows "a < length m \<and> m ! a = 1"
proof -
  let ?s = "map (\<lambda>x. x - Min (set ar) + 1 / 100) ar"
  let ?p = "map2 (*) ?s m"
  from shift_row_in_range[OF sh rng] have she: "sh = map Fin ?s" .
  from shifted_positive have pos: "\<forall>k<length ?s. 0 < ?s ! k" by simp
  have len': "length m = length ?s" using len she by simp
  have lp: "length ?p = length m" using len' by simp
  from a have "argmax (map Fin ?p) = Inr a" unfolding she times_mask_Fin .
  from argmax_Fin[OF this] have lt: "a < length m" and mx: "\<forall>j<length ?p. ?p ! j \<le> ?p ! a"
    unfolding lp by blast+
  from some bin have m1: "m ! k = 1" by blast
  have "?p ! k = ?s ! k * m ! k" using some(1) len' by simp
  moreover have "0 < ?s ! k" using pos some(1) len' by simp
  ultimately have "0 < ?p ! k" using m1 by simp
  moreover from mx some(1) have "?p ! k \<le> ?p ! a" unfolding lp by blast
  ultimately have "0 < ?p ! a" by (rule less_le_trans)
  moreover have "?p ! a = ?s ! a * m ! a" using lt len' by simp
  ultimately have "m ! a \<noteq> 0" by auto
  with bin lt show ?thesis by blast
qed

lemma choose_maxQ_slot_Inr:
  assumes "choose_maxQ_slot qranks (Some wm) i = Inr row"
  shows "\<exists>ar. map_err shift_row (qranks ! i) = Inr ar \<and> i < length wm
           \<and> same_size (wm ! i) ar
           \<and> map_err argmax (map2 (map2 times_mask) ar (wm ! i)) = Inr row"
  using assms
  by (auto simp: choose_maxQ_slot_def bind_err_def split: sum.splits if_splits)

lemma choose_maxQ_command_Inr:
  assumes "choose_maxQ_command support ranks word_mask = Inr idx"
  shows "\<exists>qranks. scores_of support ranks = Inr qranks
           \<and> map_err (choose_maxQ_slot qranks word_mask) [0..<length qranks] = Inr idx"
  using assms
  by (auto simp: choose_maxQ_command_def bind_err_def split: sum.splits)

text \<open>
  Claim C10, as the code has it. Whenever \<open>choose_maxQ_command\<close> returns for a given word
  mask, then for every command slot \<open>i\<close> and batch row \<open>j\<close> in which no score exceeds the
  row's minimum by the single-precision overflow magnitude or more, and whose mask row has
  entries 0 or 1 only and at least one nonzero entry, the returned index lies within the row
  and points to a word whose mask value is 1.
\<close>

theorem choose_maxQ_command_allowed_word_in_range:
  assumes run: "choose_maxQ_command support ranks (Some word_mask) = Inr idx"
    and sc: "scores_of support ranks = Inr scores"
    and i: "i < length idx" and j: "j < length (idx ! i)"
    and rng: "\<forall>x\<in>set (scores ! i ! j). x - Min (set (scores ! i ! j)) < float32_overflow"
    and bin: "\<forall>k<length (word_mask ! i ! j). word_mask ! i ! j ! k = 0 \<or> word_mask ! i ! j ! k = 1"
    and k: "k < length (word_mask ! i ! j)" and nz: "word_mask ! i ! j ! k \<noteq> 0"
  shows "idx ! i ! j < length (word_mask ! i ! j) \<and> word_mask ! i ! j ! (idx ! i ! j) = 1"
proof -
  from choose_maxQ_command_Inr[OF run] sc have
    m: "map_err (choose_maxQ_slot scores (Some word_mask)) [0..<length scores] = Inr idx"
    by auto
  from map_err_Inr[OF m] i
  have "choose_maxQ_slot scores (Some word_mask) ([0..<length scores] ! i) = Inr (idx ! i)"
    and il: "i < length scores"
    by simp_all
  then have s: "choose_maxQ_slot scores (Some word_mask) i = Inr (idx ! i)" by simp
  from choose_maxQ_slot_Inr[OF s] obtain ar where
    sh: "map_err shift_row (scores ! i) = Inr ar"
    and ss: "same_size (word_mask ! i) ar"
    and am: "map_err argmax (map2 (map2 times_mask) ar (word_mask ! i)) = Inr (idx ! i)"
    by blast
  from ss have lens: "map length (word_mask ! i) = map length ar" by (simp add: same_size_def)
  then have l1: "length (word_mask ! i) = length ar" by (rule map_eq_imp_length_eq)
  from map_err_Inr[OF am] have l2: "length (idx ! i) = length ar"
    and a: "\<forall>k<length ar.
              argmax (map2 (map2 times_mask) ar (word_mask ! i) ! k) = Inr (idx ! i ! k)"
    using l1 by simp_all
  from j l2 have jl: "j < length ar" by simp
  from a jl l1
  have aj: "argmax (map2 times_mask (ar ! j) (word_mask ! i ! j)) = Inr (idx ! i ! j)"
    by simp
  from map_err_Inr[OF sh] jl have shj: "shift_row (scores ! i ! j) = Inr (ar ! j)"
    by simp
  have "map length (word_mask ! i) ! j = map length ar ! j" using lens by simp
  then have lj: "length (word_mask ! i ! j) = length (ar ! j)" using jl l1 by simp
  from masked_argmax_allowed[OF shj rng lj aj bin k nz] show ?thesis .
qed

theorem choose_maxQ_command_allowed_word_in_range_witness:
  "choose_maxQ_command [] (Values [[[1, 5, 2], [3, - 1, 0]]]) (Some [[[1, 0, 1], [0, 1, 0]]])
     = Inr [[2, 1]]
   \<and> scores_of [] (Values [[[1, 5, 2], [3, - 1, 0]]]) = Inr [[[1, 5, 2], [3, - 1, 0]]]
   \<and> (0::nat) < length [[2, 1 :: nat]] \<and> (1::nat) < length ([[2, 1 :: nat]] ! 0)
   \<and> list_all (\<lambda>x. x - Min (set [3, - 1, 0]) < float32_overflow) [3, - 1, 0]
   \<and> list_all (\<lambda>x. x = 0 \<or> x = 1) ([[[1, 0, 1], [0, 1, 0 :: real]]] ! 0 ! 1)
   \<and> (1::nat) < length ([[[1, 0, 1], [0, 1, 0 :: real]]] ! 0 ! 1)
   \<and> [[[1, 0, 1], [0, 1, 0 :: real]]] ! 0 ! 1 ! 1 \<noteq> 0
   \<and> [[[1, 0, 1], [0, 1, 0 :: real]]] ! 0 ! 1 ! ([[2, 1 :: nat]] ! 0 ! 1) = 1"
proof -
  let ?wm = "[[[1, 0, 1], [0, 1, 0 :: real]]]"
  let ?sc = "[[[1, 5, 2], [3, - 1, 0 :: real]]]"
  let ?idx = "[[2, 1 :: nat]]"
  have run: "choose_maxQ_command [] (Values ?sc) (Some ?wm) = Inr ?idx"
    by (simp add: choose_maxQ_command_def scores_of_def choose_maxQ_slot_def bind_err_def
          shift_row_def float32_overflow_def times_mask_def argmax_def first_index_def
          same_size_def)
  have sc: "scores_of [] (Values ?sc) = Inr ?sc" by (simp add: scores_of_def)
  have i: "(0::nat) < length ?idx" by simp
  have j: "(1::nat) < length (?idx ! 0)" by simp
  have rng': "list_all (\<lambda>x. x - Min (set [3, - 1, 0]) < float32_overflow) [3, - 1, 0]"
    by (simp add: float32_overflow_def)
  then have rng: "\<forall>x\<in>set (?sc ! 0 ! 1). x - Min (set (?sc ! 0 ! 1)) < float32_overflow"
    by (simp add: list_all_iff)
  have bin: "\<forall>k<length (?wm ! 0 ! 1). ?wm ! 0 ! 1 ! k = 0 \<or> ?wm ! 0 ! 1 ! k = 1"
    by (simp add: less_Suc_eq numeral_3_eq_3)
  have k: "(1::nat) < length (?wm ! 0 ! 1)" by simp
  have nz: "?wm ! 0 ! 1 ! 1 \<noteq> 0" by simp
  from choose_maxQ_command_allowed_word_in_range[OF run sc i j rng bin k nz]
  have "?wm ! 0 ! 1 ! (?idx ! 0 ! 1) = 1" by blast
  moreover have "list_all (\<lambda>x. x = 0 \<or> x = 1) (?wm ! 0 ! 1)" by simp
  ultimately show ?thesis using run sc i j rng' k nz by blast
qed

text \<open>
  Claim C10 as stated fails when the shift overflows. On the scores \<open>2^127\<close> and \<open>-2^127\<close>,
  both single-precision numbers, with the mask \<open>[0, 1]\<close>, the shifted first score is
  infinite, its product with the mask value 0 is a NaN, and \<open>torch.argmax\<close> returns the
  position of the NaN: index 0, a word whose mask value is 0.
\<close>

theorem choose_maxQ_command_overflow_counterexample:
  "choose_maxQ_command [] (Values [[[2 ^ 127, - (2 ^ 127)]]]) (Some [[[0, 1]]]) = Inr [[0]]
   \<and> list_all (\<lambda>x. x = 0 \<or> x = 1) ([[[0, 1 :: real]]] ! 0 ! 0)
   \<and> [[[0, 1 :: real]]] ! 0 ! 0 ! 1 \<noteq> 0
   \<and> [[[0, 1 :: real]]] ! 0 ! 0 ! ([[0 :: nat]] ! 0 ! 0) = 0"
  by (simp add: choose_maxQ_command_def scores_of_def choose_maxQ_slot_def bind_err_def
        shift_row_def float32_overflow_def times_mask_def argmax_def first_index_def
        same_size_def)

section \<open>Properties of the non-distributional DQN loss\<close>

lemma bind_err_Inr: "bind_err m f = Inr y \<Longrightarrow> \<exists>x. m = Inr x \<and> f x = Inr y"
  by (cases m) (simp_all add: bind_err_def)

lemma gather_dim_1_Inr:
  assumes "gather_dim_1 w idx = Inr g"
  shows "length idx = length w \<and> length g = length w \<and> (\<forall>b<length w. g ! b = w ! b ! (idx ! b))"
proof -
  from assms have l: "length w = length idx"
    and m: "map_err (\<lambda>(row, k). if k < length row then Inr (row ! k) else Inl RuntimeError)
              (zip w idx) = Inr g"
    by (auto simp: gather_dim_1_def split: if_splits)
  from map_err_Inr[OF m] l have lg: "length g = length w"
    and n: "\<forall>b<length w. (if idx ! b < length (w ! b) then Inr (w ! b ! (idx ! b))
                             else Inl RuntimeError) = Inr (g ! b)"
    by simp_all
  have "\<forall>b<length w. g ! b = w ! b ! (idx ! b)"
  proof (intro allI impI)
    fix b assume "b < length w"
    with n show "g ! b = w ! b ! (idx ! b)" by (auto split: if_splits)
  qed
  with l lg show ?thesis by simp
qed

lemma gather_slots_Inr:
  assumes "gather_slots rk indices = Inr gs"
  shows "length gs = min (length rk) (length indices)
     \<and> (\<forall>s<length gs. length (gs ! s) = length (rk ! s)
            \<and> (\<forall>b<length (rk ! s). gs ! s ! b = rk ! s ! b ! (indices ! s ! b)))"
proof -
  from map_err_Inr[OF assms[unfolded gather_slots_def]]
  have l: "length gs = min (length rk) (length indices)"
    and n: "\<forall>s<length (zip rk indices).
              (case zip rk indices ! s of (w_rank, idx) \<Rightarrow> gather_dim_1 w_rank idx) = Inr (gs ! s)"
    by simp_all
  have "\<forall>s<length gs. length (gs ! s) = length (rk ! s)
            \<and> (\<forall>b<length (rk ! s). gs ! s ! b = rk ! s ! b ! (indices ! s ! b))"
  proof (intro allI impI)
    fix s assume s: "s < length gs"
    with l n have "gather_dim_1 (rk ! s) (indices ! s) = Inr (gs ! s)" by simp
    from gather_dim_1_Inr[OF this]
    show "length (gs ! s) = length (rk ! s)
            \<and> (\<forall>b<length (rk ! s). gs ! s ! b = rk ! s ! b ! (indices ! s ! b))" by simp
  qed
  with l show ?thesis by simp
qed

lemma slot_mean_Inr:
  assumes "slot_mean rows = Inr q"
  shows "rows \<noteq> [] \<and> length q = length (hd rows)
     \<and> (\<forall>b<length q. q ! b = mean (map (\<lambda>s. rows ! s ! b) [0..<length rows]))"
proof -
  from assms have ne: "rows \<noteq> []"
    and q: "q = map (\<lambda>b. mean (map (\<lambda>row. row ! b) rows)) [0..<length (hd rows)]"
    by (auto simp: slot_mean_def stack_rows_def bind_err_def split: if_splits)
  have "map (\<lambda>row. row ! b) rows = map (\<lambda>s. rows ! s ! b) [0..<length rows]" for b
    by (simp add: map_equality_iff)
  with q ne show ?thesis by simp
qed

lemma tensor_op_same:
  "length xs = length ys \<Longrightarrow> tensor_op f xs ys = Inr zs \<Longrightarrow>
   length zs = length xs \<and> (\<forall>b<length xs. zs ! b = f (xs ! b) (ys ! b))"
  by (auto simp: tensor_op_def)

lemma next_word_qvalues_Inr:
  assumes "next_word_qvalues dd [] Values nets = Inr nwq"
  shows "\<exists>idx. choose_maxQ_command []
                 (Values (if dd then next_online_ranks nets else next_target_ranks nets))
                 (Some (next_local_word_masks nets)) = Inr idx
           \<and> gather_slots (next_target_ranks nets) idx = Inr nwq"
  using assms by (cases dd) (auto simp: next_word_qvalues_def dest: bind_err_Inr)

lemma gathered_mean:
  assumes g: "gather_slots rk indices = Inr gs" and q: "slot_mean gs = Inr qv"
    and shape: "\<forall>w\<in>set rk. length w = B"
  shows "length qv = B
     \<and> (\<forall>b<B. qv ! b = mean (map (\<lambda>s. rk ! s ! b ! (indices ! s ! b))
                                [0..<min (length rk) (length indices)]))"
proof -
  from gather_slots_Inr[OF g] have lg: "length gs = min (length rk) (length indices)"
    and n: "\<forall>s<length gs. length (gs ! s) = length (rk ! s)
            \<and> (\<forall>b<length (rk ! s). gs ! s ! b = rk ! s ! b ! (indices ! s ! b))"
    by simp_all
  from slot_mean_Inr[OF q] have ne: "gs \<noteq> []" and lq: "length qv = length (hd gs)"
    and m: "\<forall>b<length qv. qv ! b = mean (map (\<lambda>s. gs ! s ! b) [0..<length gs])"
    by simp_all
  have lw: "length (rk ! s) = B" if "s < length gs" for s
    using that lg shape by simp
  from ne have 0: "0 < length gs" by simp
  then have "length (hd gs) = length (gs ! 0)" using ne by (simp add: hd_conv_nth)
  with n 0 lw[OF 0] lq have lB: "length qv = B" by simp
  have "\<forall>b<B. qv ! b = mean (map (\<lambda>s. rk ! s ! b ! (indices ! s ! b)) [0..<length gs])"
  proof (intro allI impI)
    fix b assume b: "b < B"
    have e: "map (\<lambda>s. gs ! s ! b) [0..<length gs]
            = map (\<lambda>s. rk ! s ! b ! (indices ! s ! b)) [0..<length gs]"
      using n lw b by (intro map_cong) simp_all
    from m b lB have "qv ! b = mean (map (\<lambda>s. gs ! s ! b) [0..<length gs])" by simp
    then show "qv ! b = mean (map (\<lambda>s. rk ! s ! b ! (indices ! s ! b)) [0..<length gs])"
      unfolding e .
  qed
  with lB lg show ?thesis by simp
qed

lemma dqn_targets_Inr:
  assumes run: "dqn_targets g dd nets data = Inr tg"
    and lr: "length (batch_rewards data) = B" and ln: "length (actual_n_list data) = B"
    and shape: "\<forall>w\<in>set (next_target_ranks nets). length w = B"
  shows "\<exists>idx. choose_maxQ_command []
                 (Values (if dd then next_online_ranks nets else next_target_ranks nets))
                 (Some (next_local_word_masks nets)) = Inr idx
           \<and> length tg = B
           \<and> (\<forall>b<B. tg ! b = batch_rewards data ! b + g ^ (actual_n_list data ! b)
                  * mean (map (\<lambda>s. next_target_ranks nets ! s ! b ! (idx ! s ! b))
                            [0..<min (length (next_target_ranks nets)) (length idx)]))"
proof -
  from bind_err_Inr[OF run[unfolded dqn_targets_def]] obtain nwq where
    a: "next_word_qvalues dd [] Values nets = Inr nwq"
    and r1: "bind_err (slot_mean nwq) (\<lambda>next_q_value.
              bind_err (tensor_op (*) next_q_value (discount_of g (actual_n_list data)))
                (\<lambda>bootstrap. tensor_op (+) (batch_rewards data) bootstrap)) = Inr tg"
    by blast
  from bind_err_Inr[OF r1] obtain nq where
    b: "slot_mean nwq = Inr nq"
    and r2: "bind_err (tensor_op (*) nq (discount_of g (actual_n_list data)))
                (\<lambda>bootstrap. tensor_op (+) (batch_rewards data) bootstrap) = Inr tg"
    by blast
  from bind_err_Inr[OF r2] obtain boot where
    c: "tensor_op (*) nq (discount_of g (actual_n_list data)) = Inr boot"
    and d: "tensor_op (+) (batch_rewards data) boot = Inr tg"
    by blast
  from next_word_qvalues_Inr[OF a] obtain idx where
    sel: "choose_maxQ_command []
            (Values (if dd then next_online_ranks nets else next_target_ranks nets))
            (Some (next_local_word_masks nets)) = Inr idx"
    and gs: "gather_slots (next_target_ranks nets) idx = Inr nwq"
    by blast
  from gathered_mean[OF gs b shape] have lq: "length nq = B"
    and nqv: "\<forall>b<B. nq ! b = mean (map (\<lambda>s. next_target_ranks nets ! s ! b ! (idx ! s ! b))
                                [0..<min (length (next_target_ranks nets)) (length idx)])"
    by simp_all
  have ld: "length nq = length (discount_of g (actual_n_list data))"
    using lq ln by (simp add: discount_of_def)
  from tensor_op_same[OF ld c] lq have lb: "length boot = B"
    and bv: "\<forall>b<B. boot ! b = nq ! b * discount_of g (actual_n_list data) ! b"
    by simp_all
  have lrb: "length (batch_rewards data) = length boot" using lr lb by simp
  from tensor_op_same[OF lrb d] lr have lt: "length tg = B"
    and tv: "\<forall>b<B. tg ! b = batch_rewards data ! b + boot ! b"
    by simp_all
  have "\<forall>b<B. tg ! b = batch_rewards data ! b + g ^ (actual_n_list data ! b)
                  * mean (map (\<lambda>s. next_target_ranks nets ! s ! b ! (idx ! s ! b))
                            [0..<min (length (next_target_ranks nets)) (length idx)])"
    using tv bv nqv ln by (simp add: discount_of_def mult.commute)
  with sel lt show ?thesis by blast
qed

text \<open>
  Claim C3, as the code has it. Whenever the non-distributional \<open>get_dqn_loss\<close> returns on
  a batch of \<open>B\<close> elements, the target of every element \<open>b\<close> is
  \<open>reward + gamma^actual_n * next_Q\<close>, with no factor for terminal transitions; \<open>next_Q\<close>
  is the average over the command slots of the target network's value at the next action,
  the action being chosen by \<open>choose_maxQ_command\<close> on the online network when double-DQN
  is on and on the target network otherwise; the current Q is the average over the slots of
  the online network's value at the chosen indices; and the loss is the mean smooth L1
  distance between the current Q and the target (mixed with the curiosity loss when that
  module is on).
\<close>

theorem dqn_loss_values_target:
  assumes run: "dqn_loss_values g dd icm nets data = Inr loss"
    and lr: "length (batch_rewards data) = B" and ln: "length (actual_n_list data) = B"
    and shape: "\<forall>w\<in>set (next_target_ranks nets). length w = B"
    and shape': "\<forall>w\<in>set (action_ranks nets). length w = B"
  shows "\<exists>idx q tg.
           choose_maxQ_command []
             (Values (if dd then next_online_ranks nets else next_target_ranks nets))
             (Some (next_local_word_masks nets)) = Inr idx
         \<and> length q = B \<and> length tg = B
         \<and> (\<forall>b<B.
               q ! b = mean (map (\<lambda>s. action_ranks nets ! s ! b ! (chosen_indices data ! s ! b))
                         [0..<min (length (action_ranks nets)) (length (chosen_indices data))])
             \<and> tg ! b = batch_rewards data ! b + g ^ (actual_n_list data ! b)
                  * mean (map (\<lambda>s. next_target_ranks nets ! s ! b ! (idx ! s ! b))
                            [0..<min (length (next_target_ranks nets)) (length idx)]))
         \<and> loss = mix_icm icm (mean (map (\<lambda>b. smooth_l1 (q ! b - tg ! b)) [0..<B]))"
proof -
  from bind_err_Inr[OF run[unfolded dqn_loss_values_def]] obtain wq where
    a: "gather_slots (action_ranks nets) (chosen_indices data) = Inr wq"
    and r1: "bind_err (slot_mean wq) (\<lambda>q_value.
               bind_err (dqn_targets g dd nets data) (\<lambda>target.
               bind_err (smooth_l1_loss q_value target) (\<lambda>dqn_loss.
                 Inr (mix_icm icm dqn_loss)))) = Inr loss"
    by blast
  from bind_err_Inr[OF r1] obtain q where
    b: "slot_mean wq = Inr q"
    and r2: "bind_err (dqn_targets g dd nets data) (\<lambda>target.
               bind_err (smooth_l1_loss q target) (\<lambda>dqn_loss.
                 Inr (mix_icm icm dqn_loss))) = Inr loss"
    by blast
  from bind_err_Inr[OF r2] obtain tg where
    c: "dqn_targets g dd nets data = Inr tg"
    and r3: "bind_err (smooth_l1_loss q tg) (\<lambda>dqn_loss. Inr (mix_icm icm dqn_loss)) = Inr loss"
    by blast
  from bind_err_Inr[OF r3] obtain l where
    d: "smooth_l1_loss q tg = Inr l" and e: "loss = mix_icm icm l"
    by auto
  from gathered_mean[OF a b shape'] have lq: "length q = B"
    and qv: "\<forall>b<B. q ! b = mean (map (\<lambda>s. action_ranks nets ! s ! b ! (chosen_indices data ! s ! b))
                         [0..<min (length (action_ranks nets)) (length (chosen_indices data))])"
    by simp_all
  from dqn_targets_Inr[OF c lr ln shape] obtain idx where
    sel: "choose_maxQ_command []
             (Values (if dd then next_online_ranks nets else next_target_ranks nets))
             (Some (next_local_word_masks nets)) = Inr idx"
    and lt: "length tg = B"
    and tv: "\<forall>b<B. tg ! b = batch_rewards data ! b + g ^ (actual_n_list data ! b)
                  * mean (map (\<lambda>s. next_target_ranks nets ! s ! b ! (idx ! s ! b))
                            [0..<min (length (next_target_ranks nets)) (length idx)])"
    by blast
  from bind_err_Inr[OF d[unfolded smooth_l1_loss_def]] obtain df where
    f: "tensor_op (-) q tg = Inr df" and lv: "l = mean (map smooth_l1 df)"
    by auto
  have lqt: "length q = length tg" using lq lt by simp
  from tensor_op_same[OF lqt f] lq have ldf: "length df = B"
    and dv: "\<forall>b<B. df ! b = q ! b - tg ! b" by simp_all
  have "map smooth_l1 df = map (\<lambda>b. smooth_l1 (q ! b - tg ! b)) [0..<B]"
    using ldf dv by (intro nth_equalityI) simp_all
  with lv e have "loss = mix_icm icm (mean (map (\<lambda>b. smooth_l1 (q ! b - tg ! b)) [0..<B]))"
    by simp
  with sel lq lt qv tv show ?thesis by blast
qed

text \<open>
  Claim C3 as stated fails on a terminal transition: the batch has no terminal flag and the
  code adds the discounted bootstrap value in every case. With reward 1, \<open>gamma = 1/2\<close>,
  \<open>actual_n = 2\<close> and next values 4, 6, 12 the code's target is 17/6, where the claimed
  target of a terminal transition is 1.
\<close>

theorem dqn_target_terminal_counterexample:
  "dqn_targets (1/2) True
     \<lparr>action_ranks = [[[1, 2]], [[3, 4]], [[5, 6]]],
      next_online_ranks = [[[0, 1]], [[1, 0]], [[0, 1]]],
      next_target_ranks = [[[2, 4]], [[6, 8]], [[10, 12]]],
      next_local_word_masks = [[[1, 1]], [[1, 1]], [[1, 1]]]\<rparr>
     \<lparr>chosen_indices = [[0], [1], [0]], batch_rewards = [1], actual_n_list = [2]\<rparr>
    = Inr [17 / 6]
   \<and> claimed_target (1/2) 1 2 (mean [4, 6, 12]) True = 1"
  by (simp add: dqn_targets_def next_word_qvalues_def choose_maxQ_command_def
        scores_of_def choose_maxQ_slot_def bind_err_def shift_row_def float32_overflow_def
        times_mask_def argmax_def first_index_def same_size_def
        gather_slots_def gather_dim_1_def slot_mean_def stack_rows_def mean_def
        tensor_op_def discount_of_def claimed_target_def upt_rec power2_eq_square)

theorem dqn_loss_values_target_witness:
  "dqn_loss_values (1/2) True None
     \<lparr>action_ranks = [[[1, 2]], [[3, 4]], [[5, 6]]],
      next_online_ranks = [[[0, 1]], [[1, 0]], [[0, 1]]],
      next_target_ranks = [[[2, 4]], [[6, 8]], [[10, 12]]],
      next_local_word_masks = [[[1, 1]], [[1, 1]], [[1, 1]]]\<rparr>
     \<lparr>chosen_indices = [[0], [1], [0]], batch_rewards = [1], actual_n_list = [2]\<rparr>
    = Inr (1 / 8)
   \<and> list_all (\<lambda>w. length w = 1) [[[2, 4]], [[6, 8]], [[10, 12 :: real]]]
   \<and> list_all (\<lambda>w. length w = 1) [[[1, 2]], [[3, 4]], [[5, 6 :: real]]]
   \<and> (\<exists>idx q tg.
         choose_maxQ_command [] (Values [[[0, 1]], [[1, 0]], [[0, 1]]])
           (Some [[[1, 1]], [[1, 1]], [[1, 1]]]) = Inr idx
       \<and> idx = [[1], [0], [1]] \<and> q ! 0 = 10 / 3 \<and> tg ! 0 = 17 / 6
       \<and> 1 / 8 = smooth_l1 (q ! 0 - tg ! 0))"
proof -
  let ?N = "\<lparr>action_ranks = [[[1, 2]], [[3, 4]], [[5, 6 :: real]]],
      next_online_ranks = [[[0, 1]], [[1, 0]], [[0, 1]]],
      next_target_ranks = [[[2, 4]], [[6, 8]], [[10, 12]]],
      next_local_word_masks = [[[1, 1]], [[1, 1]], [[1, 1]]]\<rparr>"
  let ?D = "\<lparr>chosen_indices = [[0], [1], [0]], batch_rewards = [1], actual_n_list = [2]\<rparr>"
  have run: "dqn_loss_values (1/2) True None ?N ?D = Inr (1 / 8)"
    by (simp add: dqn_loss_values_def dqn_targets_def next_word_qvalues_def
        choose_maxQ_command_def scores_of_def choose_maxQ_slot_def bind_err_def shift_row_def
        float32_overflow_def times_mask_def argmax_def first_index_def
        same_size_def gather_slots_def gather_dim_1_def slot_mean_def stack_rows_def mean_def
        tensor_op_def discount_of_def smooth_l1_loss_def smooth_l1_def mix_icm_def upt_rec
        power2_eq_square)
  have lr: "length (batch_rewards ?D) = 1" by simp
  have ln: "length (actual_n_list ?D) = 1" by simp
  have s1: "\<forall>w\<in>set (next_target_ranks ?N). length w = 1" by simp
  have s2: "\<forall>w\<in>set (action_ranks ?N). length w = 1" by simp
  from dqn_loss_values_target[OF run lr ln s1 s2] obtain idx q tg where
    sel: "choose_maxQ_command [] (Values [[[0, 1]], [[1, 0]], [[0, 1]]])
           (Some [[[1, 1]], [[1, 1]], [[1, 1]]]) = Inr idx"
    and v: "\<forall>b<1.
               q ! b = mean (map (\<lambda>s. action_ranks ?N ! s ! b ! (chosen_indices ?D ! s ! b))
                         [0..<min (length (action_ranks ?N)) (length (chosen_indices ?D))])
             \<and> tg ! b = batch_rewards ?D ! b + (1/2) ^ (actual_n_list ?D ! b)
                  * mean (map (\<lambda>s. next_target_ranks ?N ! s ! b ! (idx ! s ! b))
                            [0..<min (length (next_target_ranks ?N)) (length idx)])"
    and l: "1 / 8 = mix_icm None (mean (map (\<lambda>b. smooth_l1 (q ! b - tg ! b)) [0..<1]))"
    by auto
  have "choose_maxQ_command [] (Values [[[0, 1]], [[1, 0]], [[0, 1]]])
           (Some [[[1, 1]], [[1, 1]], [[1, 1]]]) = Inr [[1], [0], [1]]"
    by (simp add: choose_maxQ_command_def scores_of_def choose_maxQ_slot_def bind_err_def
          shift_row_def float32_overflow_def times_mask_def argmax_def first_index_def
          same_size_def upt_rec)
  with sel have i: "idx = [[1], [0], [1]]" by simp
  from v have q0: "q ! 0 = 10 / 3" by (simp add: mean_def upt_rec)
  from v have t0: "tg ! 0 = 17 / 6" unfolding i by (simp add: mean_def upt_rec power2_eq_square)
  from l have l': "1 / 8 = smooth_l1 (q ! 0 - tg ! 0)"
    by (simp add: mix_icm_def mean_def)
  have a1: "list_all (\<lambda>w. length w = 1) [[[2, 4]], [[6, 8]], [[10, 12 :: real]]]" by simp
  have a2: "list_all (\<lambda>w. length w = 1) [[[1, 2]], [[3, 4]], [[5, 6 :: real]]]" by simp
  from run a1 a2 sel i q0 t0 l' show ?thesis by blast
qed

section \<open>Properties of the categorical projection\<close>

lemma nudge_bins:
  assumes "2 \<le> atoms" and "0 \<le> x" and "x \<le> real atoms - 1"
  shows "\<exists>l u. nudge atoms (\<lfloor>x\<rfloor>, \<lceil>x\<rceil>) = (l, u) \<and> 0 \<le> l \<and> u \<le> int atoms - 1 \<and> u = l + 1"
proof -
  have f0: "0 \<le> \<lfloor>x\<rfloor>" using assms(2) by simp
  have "x \<le> of_int (int atoms - 1)" using assms(3) by simp
  then have c1: "\<lceil>x\<rceil> \<le> int atoms - 1" by (rule ceiling_le)
  have fc: "\<lfloor>x\<rfloor> = \<lceil>x\<rceil> \<or> \<lceil>x\<rceil> = \<lfloor>x\<rfloor> + 1"
    by (metis ceiling_altdef add.commute)
  then show ?thesis
  proof
    assume e: "\<lfloor>x\<rfloor> = \<lceil>x\<rceil>"
    show ?thesis
    proof (cases "0 < \<lceil>x\<rceil>")
      case True
      then show ?thesis using e c1 by (simp add: nudge_def Let_def)
    next
      case False
      with f0 e have z: "\<lceil>x\<rceil> = 0" by linarith
      then show ?thesis using e assms(1) by (simp add: nudge_def Let_def)
    qed
  next
    assume n: "\<lceil>x\<rceil> = \<lfloor>x\<rfloor> + 1"
    then show ?thesis using f0 c1 by (simp add: nudge_def Let_def)
  qed
qed

lemma nudge_on_atom:
  assumes "\<lfloor>x\<rfloor> = \<lceil>x\<rceil>"
  shows "nudge atoms (\<lfloor>x\<rfloor>, \<lceil>x\<rceil>) =
           (if 0 < \<lceil>x\<rceil> then (\<lceil>x\<rceil> - 1, \<lceil>x\<rceil>)
            else if \<lceil>x\<rceil> < int atoms - 1 then (\<lceil>x\<rceil>, \<lceil>x\<rceil> + 1)
            else (\<lceil>x\<rceil>, \<lceil>x\<rceil>))"
  using assms by (simp add: nudge_def Let_def)

lemma clamp_bounds: "lo \<le> hi \<Longrightarrow> lo \<le> clamp lo hi x \<and> clamp lo hi x \<le> hi"
  by (simp add: clamp_def)

lemma atom_bins_props:
  assumes "2 \<le> atoms" and "v_min < v_max"
  shows "\<exists>b l u. atom_bins v_min v_max atoms r d j = (b, l, u)
           \<and> 0 \<le> l \<and> u \<le> int atoms - 1 \<and> u = l + 1"
proof -
  let ?dz = "delta_z_of v_min v_max atoms"
  let ?Tz = "clamp v_min v_max (r + d * (support_of v_min v_max atoms ! j))"
  let ?b = "(?Tz - v_min) / ?dz"
  have a1: "0 < real atoms - 1" using assms(1) by simp
  then have dz: "0 < ?dz" using assms(2) by (simp add: delta_z_of_def)
  from clamp_bounds[of v_min v_max] assms(2)
  have lo: "v_min \<le> ?Tz" and hi: "?Tz \<le> v_max" by simp_all
  have b0: "0 \<le> ?b" using lo dz by simp
  have "?Tz - v_min \<le> v_max - v_min" using hi by simp
  then have "?b \<le> (v_max - v_min) / ?dz" using dz by (simp add: divide_right_mono)
  also have "(v_max - v_min) / ?dz = real atoms - 1"
    using assms(2) a1 by (simp add: delta_z_of_def)
  finally have b1: "?b \<le> real atoms - 1" .
  from nudge_bins[OF assms(1) b0 b1] obtain l u where
    "nudge atoms (\<lfloor>?b\<rfloor>, \<lceil>?b\<rceil>) = (l, u)" "0 \<le> l" "u \<le> int atoms - 1" "u = l + 1"
    by blast
  then show ?thesis by (simp add: atom_bins_def Let_def)
qed

lemma update_row_sum:
  assumes "k < length m"
  shows "(\<Sum>j<n. (m[k := m ! k + v]) ! (off + j))
           = (\<Sum>j<n. m ! (off + j)) + (if off \<le> k \<and> k < off + n then v else 0)"
proof -
  have e: "(m[k := m ! k + v]) ! (off + j)
             = m ! (off + j) + (if j = k - off then (if off \<le> k then v else 0) else 0)" for j
    using assms by (auto simp: nth_list_update)
  have "(\<Sum>j<n. (m[k := m ! k + v]) ! (off + j))
          = (\<Sum>j<n. m ! (off + j))
            + (\<Sum>j\<in>{..<n}. if j = k - off then (if off \<le> k then v else 0) else 0)"
    unfolding e by (simp add: sum.distrib)
  also have "(\<Sum>j\<in>{..<n}. if j = k - off then (if off \<le> k then v else 0) else 0)
               = (if k - off \<in> {..<n} then (if off \<le> k then v else 0) else 0)"
    by (rule sum.delta) simp
  also have "\<dots> = (if off \<le> k \<and> k < off + n then v else 0)"
    by auto
  finally show ?thesis .
qed

lemma index_add_row:
  assumes "\<forall>kv\<in>set kvs. 0 \<le> fst kv \<and> fst kv < int (length m)"
  shows "\<exists>m'. index_add m kvs = Inr m' \<and> length m' = length m
           \<and> (\<Sum>j<n. m' ! (off + j)) = (\<Sum>j<n. m ! (off + j)) + added_mass off n kvs"
  using assms
proof (induction kvs arbitrary: m)
  case Nil
  then show ?case by (simp add: added_mass_def)
next
  case (Cons kv kvs)
  obtain k v where kv: "kv = (k, v)" by (cases kv)
  from Cons.prems kv have k: "0 \<le> k" "k < int (length m)" by simp_all
  let ?m1 = "m[nat k := m ! nat k + v]"
  have "\<forall>kv\<in>set kvs. 0 \<le> fst kv \<and> fst kv < int (length ?m1)" using Cons.prems by simp
  from Cons.IH[OF this] obtain m' where
    r: "index_add ?m1 kvs = Inr m'" and l: "length m' = length ?m1"
    and s: "(\<Sum>j<n. m' ! (off + j)) = (\<Sum>j<n. ?m1 ! (off + j)) + added_mass off n kvs"
    by blast
  have nk: "nat k < length m" using k by simp
  have c: "(off \<le> nat k \<and> nat k < off + n) = (int off \<le> k \<and> k < int (off + n))"
    using k by auto
  have "(\<Sum>j<n. m' ! (off + j))
          = (\<Sum>j<n. m ! (off + j)) + added_mass off n (kv # kvs)"
    unfolding s update_row_sum[OF nk] c by (simp add: added_mass_def kv)
  moreover have "index_add m (kv # kvs) = Inr m'" using r k by (simp add: kv)
  ultimately show ?case using l by simp
qed

lemma row_of_sum:
  assumes "i * atoms + atoms \<le> length m"
  shows "sum_list (row_of atoms m i) = (\<Sum>j<atoms. m ! (i * atoms + j))"
proof -
  have l: "length (row_of atoms m i) = atoms" using assms by (simp add: row_of_def)
  have "sum_list (row_of atoms m i) = (\<Sum>j = 0..<atoms. row_of atoms m i ! j)"
    using sum_list_sum_nth[of "row_of atoms m i"] l by simp
  also have "\<dots> = (\<Sum>j = 0..<atoms. m ! (i * atoms + j))"
    using assms by (intro sum.cong) (simp_all add: row_of_def)
  finally show ?thesis by (simp add: lessThan_atLeast0)
qed

lemma sum_list_upt: "sum_list (map F [0..<n]) = (\<Sum>i<n. F i)" for F :: "nat \<Rightarrow> real"
  by (simp add: interv_sum_list_conv_sum_set_nat lessThan_atLeast0)

lemma sum_list_map_concat:
  "sum_list (map h (concat xss)) = sum_list (map (\<lambda>xs. sum_list (map h xs)) xss)"
  for h :: "'a \<Rightarrow> real"
  by (induction xss) simp_all

lemma in_row_iff:
  assumes "0 \<le> k" and "k < int atoms"
  shows "(int (b * atoms) \<le> k + int (i * atoms) \<and> k + int (i * atoms) < int (b * atoms + atoms))
           = (i = b)"
proof (cases "i = b")
  case True
  then show ?thesis using assms by simp
next
  case False
  then consider "i < b" | "b < i" by linarith
  then show ?thesis
  proof cases
    case 1
    then have "Suc i * atoms \<le> b * atoms" by (intro mult_le_mono1) simp
    then have "int (i * atoms) + int atoms \<le> int (b * atoms)"
      by (metis of_nat_add of_nat_le_iff mult_Suc add.commute)
    with assms False show ?thesis by simp
  next
    case 2
    then have "Suc b * atoms \<le> i * atoms" by (intro mult_le_mono1) simp
    then have "int (b * atoms) + int atoms \<le> int (i * atoms)"
      by (metis of_nat_add of_nat_le_iff mult_Suc add.commute)
    with assms False show ?thesis by simp
  qed
qed

lemma added_mass_rows:
  assumes bins: "\<forall>i<B. \<forall>j<atoms. 0 \<le> f i j \<and> f i j < int atoms" and b: "b < B"
  shows "added_mass (b * atoms) atoms
           (concat (map (\<lambda>i. map (\<lambda>j. (f i j + int (i * atoms), g i j)) [0..<atoms]) [0..<B]))
         = (\<Sum>j<atoms. g b j)"
proof -
  let ?h = "\<lambda>kv :: int \<times> real.
              if int (b * atoms) \<le> fst kv \<and> fst kv < int (b * atoms + atoms) then snd kv else 0"
  have inner: "sum_list (map ?h (map (\<lambda>j. (f i j + int (i * atoms), g i j)) [0..<atoms]))
                 = (if i = b then (\<Sum>j<atoms. g b j) else 0)" if i: "i < B" for i
  proof -
    have "sum_list (map ?h (map (\<lambda>j. (f i j + int (i * atoms), g i j)) [0..<atoms]))
            = (\<Sum>j<atoms. ?h (f i j + int (i * atoms), g i j))"
      by (simp only: map_map o_def sum_list_upt)
    also have "\<dots> = (\<Sum>j<atoms. if i = b then g i j else 0)"
    proof (intro sum.cong refl)
      fix j assume "j \<in> {..<atoms}"
      then have "0 \<le> f i j" "f i j < int atoms" using bins i by simp_all
      from in_row_iff[OF this, of b i]
      show "?h (f i j + int (i * atoms), g i j) = (if i = b then g i j else 0)" by simp
    qed
    also have "\<dots> = (if i = b then (\<Sum>j<atoms. g b j) else 0)" by simp
    finally show ?thesis .
  qed
  have "added_mass (b * atoms) atoms
           (concat (map (\<lambda>i. map (\<lambda>j. (f i j + int (i * atoms), g i j)) [0..<atoms]) [0..<B]))
        = (\<Sum>i<B. sum_list (map ?h (map (\<lambda>j. (f i j + int (i * atoms), g i j)) [0..<atoms])))"
    unfolding added_mass_def by (simp only: sum_list_map_concat map_map o_def sum_list_upt)
  also have "\<dots> = (\<Sum>i\<in>{..<B}. if i = b then (\<Sum>j<atoms. g b j) else 0)"
    using inner by (intro sum.cong refl) simp
  also have "\<dots> = (if b \<in> {..<B} then (\<Sum>j<atoms. g b j) else 0)"
    by (rule sum.delta) simp
  finally show ?thesis using b by simp
qed

lemma adds_in_range:
  assumes bins: "\<forall>i<B. \<forall>j<atoms. 0 \<le> f i j \<and> f i j < int atoms"
  shows "\<forall>kv\<in>set (concat (map (\<lambda>i. map (\<lambda>j. (f i j + int (i * atoms), g i j)) [0..<atoms]) [0..<B])).
           0 \<le> fst kv \<and> fst kv < int (B * atoms)"
proof
  fix kv
  assume "kv \<in> set (concat (map (\<lambda>i. map (\<lambda>j. (f i j + int (i * atoms), g i j)) [0..<atoms]) [0..<B]))"
  then obtain i j where i: "i < B" and j: "j < atoms"
    and kv: "kv = (f i j + int (i * atoms), g i j)" by auto
  from bins i j have f: "0 \<le> f i j" "f i j < int atoms" by simp_all
  have "Suc i * atoms \<le> B * atoms" using i by (intro mult_le_mono1) simp
  then have "int (i * atoms) + int atoms \<le> int (B * atoms)"
    by (metis of_nat_add of_nat_le_iff mult_Suc add.commute)
  with f show "0 \<le> fst kv \<and> fst kv < int (B * atoms)" by (simp add: kv)
qed

text \<open>
  Claim C2. With at least two atoms and \<open>v_min < v_max\<close>, on a batch of \<open>B\<close> elements with
  one predicted probability per atom, the projection never raises and the projected target
  of every batch element has the same total mass as the element's predicted next-state
  distribution; hence it sums to 1 whenever that distribution does. When \<open>b\<close> falls exactly
  on an atom (its floor equals its ceiling), the lower bin is decremented if the upper bin is
  positive, and otherwise the upper bin is incremented, so the two bins always differ by one
  and no mass is lost.
\<close>

theorem target_distribution_conserves_mass:
  assumes at: "2 \<le> atoms" and v: "v_min < v_max"
    and lr: "length rews = B" and ld: "length disc = B" and lq: "length next_q = B"
    and rows: "\<forall>p\<in>set next_q. length p = atoms"
  shows "\<exists>m. target_distribution v_min v_max atoms rews disc next_q B = Inr m
           \<and> length m = B * atoms
           \<and> (\<forall>i<B. sum_list (row_of atoms m i) = sum_list (next_q ! i))
           \<and> (\<forall>i<B. sum_list (next_q ! i) = 1 \<longrightarrow> sum_list (row_of atoms m i) = 1)
           \<and> (\<forall>x::real. \<lfloor>x\<rfloor> = \<lceil>x\<rceil> \<and> 0 \<le> x \<and> x \<le> real atoms - 1 \<longrightarrow>
                 nudge atoms (\<lfloor>x\<rfloor>, \<lceil>x\<rceil>)
                   = (if 0 < \<lceil>x\<rceil> then (\<lceil>x\<rceil> - 1, \<lceil>x\<rceil>) else (\<lceil>x\<rceil>, \<lceil>x\<rceil> + 1)))"
proof -
  let ?bn = "\<lambda>i j. atom_bins v_min v_max atoms (rews ! i) (disc ! i) j"
  let ?x = "\<lambda>i j. fst (?bn i j)"
  let ?l = "\<lambda>i j. fst (snd (?bn i j))"
  let ?u = "\<lambda>i j. snd (snd (?bn i j))"
  let ?gl = "\<lambda>i j. next_q ! i ! j * (real_of_int (?u i j) - ?x i j)"
  let ?gu = "\<lambda>i j. next_q ! i ! j * (?x i j - real_of_int (?l i j))"
  let ?lo = "lower_adds v_min v_max atoms rews disc next_q B"
  let ?up = "upper_adds v_min v_max atoms rews disc next_q B"
  let ?m0 = "replicate (B * atoms) (0::real)"
  have bins: "0 \<le> ?l i j \<and> ?u i j \<le> int atoms - 1 \<and> ?u i j = ?l i j + 1" for i j
    using atom_bins_props[OF at v, of "rews ! i" "disc ! i" j] by auto
  have bl: "\<forall>i<B. \<forall>j<atoms. 0 \<le> ?l i j \<and> ?l i j < int atoms"
  proof (intro allI impI)
    fix i j
    from bins[of i j] show "0 \<le> ?l i j \<and> ?l i j < int atoms" by linarith
  qed
  have bu: "\<forall>i<B. \<forall>j<atoms. 0 \<le> ?u i j \<and> ?u i j < int atoms"
  proof (intro allI impI)
    fix i j
    from bins[of i j] show "0 \<le> ?u i j \<and> ?u i j < int atoms" by linarith
  qed
  have lo: "?lo = concat (map (\<lambda>i. map (\<lambda>j. (?l i j + int (i * atoms), ?gl i j)) [0..<atoms])
                    [0..<B])"
    by (simp add: lower_adds_def split_def)
  have up: "?up = concat (map (\<lambda>i. map (\<lambda>j. (?u i j + int (i * atoms), ?gu i j)) [0..<atoms])
                    [0..<B])"
    by (simp add: upper_adds_def split_def)
  have rl: "\<forall>kv\<in>set ?lo. 0 \<le> fst kv \<and> fst kv < int (length ?m0)"
    unfolding lo using adds_in_range[OF bl, of ?gl] by simp
  from index_add_row[OF rl] obtain m1 where
    r1: "index_add ?m0 ?lo = Inr m1" and l1: "length m1 = B * atoms" by fastforce
  have ru: "\<forall>kv\<in>set ?up. 0 \<le> fst kv \<and> fst kv < int (length m1)"
    unfolding up l1 using adds_in_range[OF bu, of ?gu] by simp
  from index_add_row[OF ru] obtain m2 where
    r2: "index_add m1 ?up = Inr m2" and l2: "length m2 = B * atoms" using l1 by fastforce
  have shape: "list_all (\<lambda>p. length p = atoms) next_q" using rows by (simp add: list_all_iff)
  have run: "target_distribution v_min v_max atoms rews disc next_q B = Inr m2"
    using lr ld lq shape r1 r2 by (simp add: target_distribution_def bind_err_def)
  have mass: "sum_list (row_of atoms m2 i) = sum_list (next_q ! i)" if i: "i < B" for i
  proof -
    have "Suc i * atoms \<le> B * atoms" using i by (intro mult_le_mono1) simp
    then have fit: "i * atoms + atoms \<le> length m2" using l2 by simp
    from index_add_row[OF rl, where n = atoms and off = "i * atoms"] r1
    have s1: "(\<Sum>j<atoms. m1 ! (i * atoms + j))
                = (\<Sum>j<atoms. ?m0 ! (i * atoms + j)) + added_mass (i * atoms) atoms ?lo"
      by simp
    from index_add_row[OF ru, where n = atoms and off = "i * atoms"] r2
    have s2: "(\<Sum>j<atoms. m2 ! (i * atoms + j))
                = (\<Sum>j<atoms. m1 ! (i * atoms + j)) + added_mass (i * atoms) atoms ?up"
      by simp
    have z: "(\<Sum>j<atoms. ?m0 ! (i * atoms + j)) = 0"
    proof (intro sum.neutral ballI)
      fix j assume "j \<in> {..<atoms}"
      then have "i * atoms + j < B * atoms" using fit l2 by simp
      then show "?m0 ! (i * atoms + j) = 0" by simp
    qed
    have a1: "added_mass (i * atoms) atoms ?lo = (\<Sum>j<atoms. ?gl i j)"
      unfolding lo using added_mass_rows[OF bl i, of ?gl] .
    have a2: "added_mass (i * atoms) atoms ?up = (\<Sum>j<atoms. ?gu i j)"
      unfolding up using added_mass_rows[OF bu i, of ?gu] .
    have "?gl i j + ?gu i j = next_q ! i ! j" for j
    proof -
      have "?gl i j + ?gu i j = next_q ! i ! j * (real_of_int (?u i j) - real_of_int (?l i j))"
        by (simp add: algebra_simps)
      also have "real_of_int (?u i j) - real_of_int (?l i j) = 1" using bins[of i j] by simp
      finally show ?thesis by simp
    qed
    then have "(\<Sum>j<atoms. ?gl i j) + (\<Sum>j<atoms. ?gu i j) = (\<Sum>j<atoms. next_q ! i ! j)"
      by (simp add: sum.distrib[symmetric])
    also have "\<dots> = sum_list (next_q ! i)"
    proof -
      have "length (next_q ! i) = atoms" using rows i lq by simp
      then show ?thesis using sum_list_sum_nth[of "next_q ! i"] by (simp add: lessThan_atLeast0)
    qed
    finally have "(\<Sum>j<atoms. m2 ! (i * atoms + j)) = sum_list (next_q ! i)"
      using s1 s2 z a1 a2 by simp
    then show ?thesis using row_of_sum[OF fit] by simp
  qed
  have nd: "\<forall>x::real. \<lfloor>x\<rfloor> = \<lceil>x\<rceil> \<and> 0 \<le> x \<and> x \<le> real atoms - 1 \<longrightarrow>
                 nudge atoms (\<lfloor>x\<rfloor>, \<lceil>x\<rceil>)
                   = (if 0 < \<lceil>x\<rceil> then (\<lceil>x\<rceil> - 1, \<lceil>x\<rceil>) else (\<lceil>x\<rceil>, \<lceil>x\<rceil> + 1))"
  proof (intro allI impI)
    fix x :: real
    assume h: "\<lfloor>x\<rfloor> = \<lceil>x\<rceil> \<and> 0 \<le> x \<and> x \<le> real atoms - 1"
    then have e: "\<lfloor>x\<rfloor> = \<lceil>x\<rceil>" and x0: "0 \<le> x" by simp_all
    have "0 \<le> \<lfloor>x\<rfloor>" using x0 by simp
    with e have c0: "0 \<le> \<lceil>x\<rceil>" by simp
    show "nudge atoms (\<lfloor>x\<rfloor>, \<lceil>x\<rceil>)
            = (if 0 < \<lceil>x\<rceil> then (\<lceil>x\<rceil> - 1, \<lceil>x\<rceil>) else (\<lceil>x\<rceil>, \<lceil>x\<rceil> + 1))"
    proof (cases "0 < \<lceil>x\<rceil>")
      case True
      then show ?thesis using nudge_on_atom[OF e, of atoms] by simp
    next
      case False
      with c0 have "\<lceil>x\<rceil> = 0" by linarith
      then show ?thesis using nudge_on_atom[OF e, of atoms] at by simp
    qed
  qed
  from run l2 mass nd show ?thesis by auto
qed

theorem target_distribution_conserves_mass_witness:
  "(2::nat) \<le> 3 \<and> (0::real) < 2
   \<and> length [0::real] = 1 \<and> length [1::real] = 1 \<and> length [[1/4, 1/2, 1/4 :: real]] = 1
   \<and> list_all (\<lambda>p. length p = 3) [[1/4, 1/2, 1/4 :: real]]
   \<and> target_distribution 0 2 3 [0] [1] [[1/4, 1/2, 1/4]] 1 = Inr [1/4, 1/2, 1/4]
   \<and> sum_list (row_of 3 [1/4, 1/2, 1/4] 0) = 1
   \<and> nudge 3 (\<lfloor>1::real\<rfloor>, \<lceil>1::real\<rceil>) = (0, 1)
   \<and> nudge 3 (\<lfloor>0::real\<rfloor>, \<lceil>0::real\<rceil>) = (0, 1)"
proof -
  have h1: "(2::nat) \<le> 3" by simp
  have h2: "(0::real) < 2" by simp
  have h3: "length [0::real] = 1" by simp
  have h4: "length [1::real] = 1" by simp
  have h5: "length [[1/4, 1/2, 1/4 :: real]] = 1" by simp
  have h6: "\<forall>p\<in>set [[1/4, 1/2, 1/4 :: real]]. length p = 3" by simp
  from target_distribution_conserves_mass[OF h1 h2 h3 h4 h5 h6] obtain m where
    r: "target_distribution 0 2 3 [0] [1] [[1/4, 1/2, 1/4]] 1 = Inr m"
    and s: "\<forall>i<1. sum_list ([[1/4, 1/2, 1/4 :: real]] ! i) = 1 \<longrightarrow> sum_list (row_of 3 m i) = 1"
    and n: "\<forall>x::real. \<lfloor>x\<rfloor> = \<lceil>x\<rceil> \<and> 0 \<le> x \<and> x \<le> real 3 - 1 \<longrightarrow>
                 nudge 3 (\<lfloor>x\<rfloor>, \<lceil>x\<rceil>)
                   = (if 0 < \<lceil>x\<rceil> then (\<lceil>x\<rceil> - 1, \<lceil>x\<rceil>) else (\<lceil>x\<rceil>, \<lceil>x\<rceil> + 1))"
    by blast
  have c: "target_distribution 0 2 3 [0] [1] [[1/4, 1/2, 1/4]] 1 = Inr [1/4, 1/2, 1/4]"
    by (simp add: target_distribution_def bind_err_def lower_adds_def upper_adds_def
          atom_bins_def support_of_def delta_z_of_def clamp_def nudge_def Let_def upt_rec
          numeral_3_eq_3)
  with r have m: "m = [1/4, 1/2, 1/4]" by simp
  from s[rule_format, of 0] have s0: "sum_list (row_of 3 [1/4, 1/2, 1/4] 0) = 1"
    unfolding m by simp
  from n[rule_format, of 1] have n1: "nudge 3 (\<lfloor>1::real\<rfloor>, \<lceil>1::real\<rceil>) = (0, 1)" by simp
  from n[rule_format, of 0] have n0: "nudge 3 (\<lfloor>0::real\<rfloor>, \<lceil>0::real\<rceil>) = (0, 1)" by simp
  have h6': "list_all (\<lambda>p. length p = 3) [[1/4, 1/2, 1/4 :: real]]" by simp
  from h1 h2 h3 h4 h5 h6' c s0 n1 n0 show ?thesis by blast
qed

section \<open>Properties of the update of the command generator\<close>

text \<open>
  Claim C9. With fewer stored transitions than the batch size, or with no sampled batch,
  \<open>get_dqn_loss\<close> returns \<open>None\<close>; on an empty episode store \<open>get_actor_critic_loss\<close>
  returns \<open>None\<close>; neither raises. In both cases \<open>update_interaction\<close> returns \<open>None\<close> and
  leaves the agent as it was: no backward pass and no optimizer step.
\<close>

theorem insufficient_data_skips_update:
  "(memory_len < batch_size \<longrightarrow>
      get_dqn_loss g dd i mode memory_len batch_size sampled = Inr None)
   \<and> get_dqn_loss g dd i mode memory_len batch_size None = Inr None
   \<and> get_actor_critic_loss g c i (episode_get_batch []) = Inr None
   \<and> (\<not> a2c h \<and> replay_len st < replay_batch_size h \<longrightarrow>
        update_interaction h mode sampled st = Inr (None, st))
   \<and> (a2c h \<and> episode_storage st = [] \<longrightarrow>
        update_interaction h mode sampled st = Inr (None, st))"
  by (simp add: get_dqn_loss_def get_actor_critic_loss_def episode_get_batch_def
        update_interaction_def bind_err_def episode_clear_def)

theorem insufficient_data_skips_update_witness:
  "(2::nat) < 4
   \<and> get_dqn_loss (1/2) True None
        (Scalar \<lparr>action_ranks = [], next_online_ranks = [], next_target_ranks = [],
                 next_local_word_masks = []\<rparr>) 2 4 None = Inr None
   \<and> update_interaction
        \<lparr>a2c = False, discount_gamma = 1/2, entropy_coeff = 0, double_dqn = True,
         replay_batch_size = 4, icm_module = None\<rparr>
        (Scalar \<lparr>action_ranks = [], next_online_ranks = [], next_target_ranks = [],
                 next_local_word_masks = []\<rparr>) None
        \<lparr>episode_storage = [], replay_len = 2, backward_calls = 7, optimizer_steps = 7\<rparr>
       = Inr (None, \<lparr>episode_storage = [], replay_len = 2, backward_calls = 7,
                      optimizer_steps = 7\<rparr>)
   \<and> update_interaction
        \<lparr>a2c = True, discount_gamma = 1/2, entropy_coeff = 0, double_dqn = True,
         replay_batch_size = 4, icm_module = None\<rparr>
        (Scalar \<lparr>action_ranks = [], next_online_ranks = [], next_target_ranks = [],
                 next_local_word_masks = []\<rparr>) None
        \<lparr>episode_storage = [], replay_len = 0, backward_calls = 7, optimizer_steps = 7\<rparr>
       = Inr (None, \<lparr>episode_storage = [], replay_len = 0, backward_calls = 7,
                      optimizer_steps = 7\<rparr>)"
proof -
  let ?m = "Scalar \<lparr>action_ranks = [], next_online_ranks = [], next_target_ranks = [],
                 next_local_word_masks = []\<rparr>"
  let ?h1 = "\<lparr>a2c = False, discount_gamma = 1/2, entropy_coeff = 0, double_dqn = True,
         replay_batch_size = 4, icm_module = None\<rparr>"
  let ?h2 = "\<lparr>a2c = True, discount_gamma = 1/2, entropy_coeff = 0, double_dqn = True,
         replay_batch_size = 4, icm_module = None\<rparr>"
  let ?s1 = "\<lparr>episode_storage = [], replay_len = 2, backward_calls = 7, optimizer_steps = 7\<rparr>"
  let ?s2 = "\<lparr>episode_storage = [], replay_len = 0, backward_calls = 7, optimizer_steps = 7\<rparr>"
  note T1 = insufficient_data_skips_update[of 2 4 "1/2" True None ?m None 0 ?h1 ?s1]
  note T2 = insufficient_data_skips_update[of 2 4 "1/2" True None ?m None 0 ?h2 ?s2]
  have a: "(2::nat) < 4" by simp
  from T1 a have b: "get_dqn_loss (1/2) True None ?m 2 4 None = Inr None" by blast
  have "\<not> a2c ?h1 \<and> replay_len ?s1 < replay_batch_size ?h1" by simp
  with T1 have c: "update_interaction ?h1 ?m None ?s1 = Inr (None, ?s1)" by blast
  have "a2c ?h2 \<and> episode_storage ?s2 = []" by simp
  with T2 have d: "update_interaction ?h2 ?m None ?s2 = Inr (None, ?s2)" by blast
  from a b c d show ?thesis by blast
qed

section \<open>Properties of the reward assignment and of the pushed Transitions\<close>

lemma run_steps_ends_stopped:
  assumes nn: "\<forall>t. \<forall>x\<in>set (mask (outs t)). 0 \<le> x"
  shows "k < max_steps \<Longrightarrow>
         \<exists>new. run_steps max_steps outs [k..<max_steps] cache = cache @ new \<and> new \<noteq> []
               \<and> (\<forall>x\<in>set (mask (last new)). x = 0)"
proof (induction "max_steps - k" arbitrary: k cache)
  case 0
  then show ?case by simp
next
  case (Suc n)
  let ?info = "outs k"
  let ?info1 = "if int k = int max_steps - 1 then ?info\<lparr>mask := map (\<lambda>x. 0) (mask ?info)\<rparr>
                else ?info"
  from Suc.prems have u: "[k..<max_steps] = k # [Suc k..<max_steps]" by (simp add: upt_conv_Cons)
  show ?case
  proof (cases "int k = int max_steps - 1 \<or> (0 < k \<and> sum_list (mask ?info1) = 0)")
    case True
    then have r: "run_steps max_steps outs [k..<max_steps] cache = cache @ [?info1]"
      unfolding u by (simp add: Let_def)
    have "\<forall>x\<in>set (mask ?info1). x = 0"
    proof (cases "int k = int max_steps - 1")
      case True
      then show ?thesis by simp
    next
      case False
      with True have z: "sum_list (mask ?info) = 0" by simp
      have "\<forall>x\<in>set (mask ?info). 0 \<le> x" using nn by simp
      with z have "\<forall>x\<in>set (mask ?info). x = 0"
        by (simp add: sum_list_nonneg_eq_0_iff)
      with False show ?thesis by simp
    qed
    with r show ?thesis by (intro exI[of _ "[?info1]"]) simp
  next
    case False
    then have a: "int k \<noteq> int max_steps - 1" by blast
    with False have b: "\<not> (0 < k \<and> sum_list (mask ?info) = 0)" by simp
    have r: "run_steps max_steps outs [k..<max_steps] cache
                    = run_steps max_steps outs [Suc k..<max_steps] (cache @ [?info1])"
      unfolding u using a b by (auto simp: Let_def)
    from False Suc.prems have k1: "Suc k < max_steps" by linarith
    from Suc.hyps(2) have n: "n = max_steps - Suc k" by simp
    from Suc.hyps(1)[OF n k1, of "cache @ [?info1]"] obtain new where
      e: "run_steps max_steps outs [Suc k..<max_steps] (cache @ [?info1])
            = (cache @ [?info1]) @ new"
      and ne: "new \<noteq> []" and z: "\<forall>x\<in>set (mask (last new)). x = 0"
      by blast
    show ?thesis using r e ne z by (intro exI[of _ "?info1 # new"]) simp
  qed
qed

lemma step_loop_ends_stopped:
  assumes "\<forall>t. \<forall>x\<in>set (mask (outs t)). 0 \<le> x" and "0 < max_steps"
  shows "step_loop max_steps outs \<noteq> []
         \<and> (\<forall>x\<in>set (mask (last (step_loop max_steps outs))). x = 0)"
  using run_steps_ends_stopped[OF assms(1) assms(2), of "[]"]
  by (auto simp: step_loop_def)

lemma push_loop_final:
  assumes "cache \<noteq> []" and "mask (fst (last cache)) ! b = 0"
  shows "push_loop b cache \<noteq> []
         \<and> is_final (last (push_loop b cache))
         \<and> (\<forall>t\<in>set (butlast (push_loop b cache)). \<not> is_final t)
         \<and> length (push_loop b cache)
             = Suc (length (takeWhile (\<lambda>c. mask (fst c) ! b \<noteq> 0) cache))"
  using assms
proof (induction cache)
  case Nil
  then show ?case by simp
next
  case (Cons c cache)
  obtain info rs where c: "c = (info, rs)" by (cases c)
  show ?case
  proof (cases "mask info ! b = 0")
    case True
    then show ?thesis by (simp add: c)
  next
    case False
    with Cons.prems c have ne: "cache \<noteq> []" by auto
    with Cons.prems have "mask (fst (last cache)) ! b = 0" by simp
    from Cons.IH[OF ne this] False show ?thesis by (simp add: c)
  qed
qed

lemma push_loop_reward:
  "i < length (push_loop b cache) \<Longrightarrow>
   i < length cache \<and> reward (push_loop b cache ! i) = snd (cache ! i) ! b
   \<and> is_final (push_loop b cache ! i) = (mask (fst (cache ! i)) ! b = 0)"
proof (induction cache arbitrary: i)
  case Nil
  then show ?case by simp
next
  case (Cons c cache)
  obtain info rs where c: "c = (info, rs)" by (cases c)
  show ?case
  proof (cases i)
    case 0
    then show ?thesis by (simp add: c)
  next
    case (Suc j)
    with Cons.prems c have nz: "mask info ! b \<noteq> 0" and j: "j < length (push_loop b cache)"
      by (auto split: if_splits)
    from Cons.IH[OF j] Suc nz show ?thesis by (simp add: c)
  qed
qed

lemma stack_axis1_shape:
  "length (stack_axis1 vs B) = B \<and> (\<forall>b<B. length (stack_axis1 vs B ! b) = length vs
     \<and> (\<forall>i<length vs. stack_axis1 vs B ! b ! i = vs ! i ! b))"
  by (simp add: stack_axis1_def)

lemma has_shapeD:
  "has_shape rows cols M \<Longrightarrow> length M = rows \<and> (\<forall>b<rows. length (M ! b) = cols)"
  by (auto simp: has_shape_def list_all_length)

lemma mat_op_shape:
  assumes "length A = rows \<and> (\<forall>b<rows. length (A ! b) = cols)"
    and "length C = rows \<and> (\<forall>b<rows. length (C ! b) = cols)"
  shows "length (mat_op f A C) = rows \<and> (\<forall>b<rows. length (mat_op f A C ! b) = cols
     \<and> (\<forall>i<cols. mat_op f A C ! b ! i = f (A ! b ! i) (C ! b ! i)))"
  using assms by (simp add: mat_op_def)

lemma mat_scale_shape:
  assumes "length A = rows \<and> (\<forall>b<rows. length (A ! b) = cols)"
  shows "length (mat_scale A c) = rows \<and> (\<forall>b<rows. length (mat_scale A c ! b) = cols
     \<and> (\<forall>i<cols. mat_scale A c ! b ! i = A ! b ! i * c))"
  using assms by (simp add: mat_scale_def)

lemma command_rewards_Inr:
  assumes run: "command_rewards lc lv suff intr cache B = Inr rs"
  shows "cache \<noteq> [] \<and> length rs = B
     \<and> (\<forall>info\<in>set cache. length (mask info) = B)
     \<and> (\<forall>b<B. length (rs ! b) = length cache
          \<and> (\<forall>i<length cache.
                rs ! b ! i = suff ! b ! i
                  + counting_reward (cache ! i) ! b * mask (cache ! i) ! b * lc
                  + valid_command_reward (cache ! i) ! b * mask (cache ! i) ! b * lv
                  + (case intr of None \<Rightarrow> 0 | Some r \<Rightarrow> r ! b ! i * mask (cache ! i) ! b)))"
proof -
  let ?n = "length cache"
  let ?cr = "stack_axis1 (map counting_reward cache) B"
  let ?vc = "stack_axis1 (map valid_command_reward cache) B"
  let ?gm = "stack_axis1 (map mask cache) B"
  let ?base = "mat_op (+)
                 (mat_op (+) suff (mat_scale (mat_op (*) ?cr ?gm) lc))
                 (mat_scale (mat_op (*) ?vc ?gm) lv)"
  from run have ne: "cache \<noteq> []"
    and la: "list_all (\<lambda>info. length (mask info) = B
                           \<and> length (counting_reward info) = B
                           \<and> length (valid_command_reward info) = B) cache"
    and hs: "has_shape B ?n suff"
    and hi: "case intr of None \<Rightarrow> True | Some r \<Rightarrow> has_shape B ?n r"
    and rs: "rs = (case intr of None \<Rightarrow> ?base | Some r \<Rightarrow> mat_op (+) ?base (mat_op (*) r ?gm))"
    by (auto simp: command_rewards_def Let_def split: if_splits)
  have S: "length suff = B \<and> (\<forall>b<B. length (suff ! b) = ?n)" using has_shapeD[OF hs] .
  have CR: "length ?cr = B \<and> (\<forall>b<B. length (?cr ! b) = ?n)"
    using stack_axis1_shape[of "map counting_reward cache" B] by simp
  have VC: "length ?vc = B \<and> (\<forall>b<B. length (?vc ! b) = ?n)"
    using stack_axis1_shape[of "map valid_command_reward cache" B] by simp
  have GM: "length ?gm = B \<and> (\<forall>b<B. length (?gm ! b) = ?n)"
    using stack_axis1_shape[of "map mask cache" B] by simp
  have crv: "?cr ! b ! i = counting_reward (cache ! i) ! b" if "b < B" "i < ?n" for b i
    using stack_axis1_shape[of "map counting_reward cache" B] that by simp
  have vcv: "?vc ! b ! i = valid_command_reward (cache ! i) ! b" if "b < B" "i < ?n" for b i
    using stack_axis1_shape[of "map valid_command_reward cache" B] that by simp
  have gmv: "?gm ! b ! i = mask (cache ! i) ! b" if "b < B" "i < ?n" for b i
    using stack_axis1_shape[of "map mask cache" B] that by simp
  note P1 = mat_op_shape[OF CR GM, of "(*)"]
  note Q1 = mat_op_shape[OF VC GM, of "(*)"]
  have c1: "length (mat_scale (mat_op (*) ?cr ?gm) lc) = B
            \<and> (\<forall>b<B. length (mat_scale (mat_op (*) ?cr ?gm) lc ! b) = ?n)"
    using mat_scale_shape[of "mat_op (*) ?cr ?gm" B ?n lc] P1 by simp
  have c1v: "mat_scale (mat_op (*) ?cr ?gm) lc ! b ! i
               = counting_reward (cache ! i) ! b * mask (cache ! i) ! b * lc"
    if "b < B" "i < ?n" for b i
    using mat_scale_shape[of "mat_op (*) ?cr ?gm" B ?n lc] P1 that crv gmv by simp
  have c2: "length (mat_scale (mat_op (*) ?vc ?gm) lv) = B
            \<and> (\<forall>b<B. length (mat_scale (mat_op (*) ?vc ?gm) lv ! b) = ?n)"
    using mat_scale_shape[of "mat_op (*) ?vc ?gm" B ?n lv] Q1 by simp
  have c2v: "mat_scale (mat_op (*) ?vc ?gm) lv ! b ! i
               = valid_command_reward (cache ! i) ! b * mask (cache ! i) ! b * lv"
    if "b < B" "i < ?n" for b i
    using mat_scale_shape[of "mat_op (*) ?vc ?gm" B ?n lv] Q1 that vcv gmv by simp
  note A1 = mat_op_shape[OF S c1, of "(+)"]
  have a1: "length (mat_op (+) suff (mat_scale (mat_op (*) ?cr ?gm) lc)) = B
            \<and> (\<forall>b<B. length (mat_op (+) suff (mat_scale (mat_op (*) ?cr ?gm) lc) ! b) = ?n)"
    using A1 by simp
  note A2 = mat_op_shape[OF a1 c2, of "(+)"]
  have base: "length ?base = B \<and> (\<forall>b<B. length (?base ! b) = ?n)" using A2 by simp
  have basev: "?base ! b ! i = suff ! b ! i
                  + counting_reward (cache ! i) ! b * mask (cache ! i) ! b * lc
                  + valid_command_reward (cache ! i) ! b * mask (cache ! i) ! b * lv"
    if "b < B" "i < ?n" for b i
    using A2 A1 c1v c2v that by simp
  have masks: "\<forall>info\<in>set cache. length (mask info) = B"
    using la by (simp add: list_all_iff)
  show ?thesis
  proof (cases intr)
    case None
    with rs have "rs = ?base" by simp
    with base basev ne masks None show ?thesis by simp
  next
    case (Some r)
    with hi have R: "length r = B \<and> (\<forall>b<B. length (r ! b) = ?n)" using has_shapeD by simp
    note I1 = mat_op_shape[OF R GM, of "(*)"]
    have i1: "length (mat_op (*) r ?gm) = B \<and> (\<forall>b<B. length (mat_op (*) r ?gm ! b) = ?n)"
      using I1 by simp
    note I2 = mat_op_shape[OF base i1, of "(+)"]
    from Some rs have e: "rs = mat_op (+) ?base (mat_op (*) r ?gm)" by simp
    have "\<forall>b<B. length (rs ! b) = ?n
          \<and> (\<forall>i<?n. rs ! b ! i = suff ! b ! i
                  + counting_reward (cache ! i) ! b * mask (cache ! i) ! b * lc
                  + valid_command_reward (cache ! i) ! b * mask (cache ! i) ! b * lv
                  + r ! b ! i * mask (cache ! i) ! b)"
      unfolding e using I2 I1 basev gmv by simp
    moreover have "length rs = B" unfolding e using I2 by simp
    ultimately show ?thesis using ne masks Some by simp
  qed
qed

lemma push_games_Inr:
  assumes "push_games lc lv suff intr cache B = Inr games"
  shows "\<exists>rs. command_rewards lc lv suff intr cache B = Inr rs
           \<and> games = map (\<lambda>b. push_loop b
                        (map (\<lambda>i. (cache ! i, map (\<lambda>row. row ! i) rs)) [0..<length cache]))
                      [0..<B]"
  using assms by (auto simp: push_games_def Let_def dest: bind_err_Inr)

text \<open>
  Claim C6. For every game \<open>b\<close> and every pushed step \<open>i\<close> of it, the reward stored in the
  pushed Transition is the sufficient-information reward plus the counting bonus times the
  game-running mask times \<open>revisit_counting_lambda\<close> plus the valid-command bonus times the
  mask times \<open>valid_command_bonus_lambda\<close>, plus the intrinsic reward times the mask when
  intrinsic reward is enabled. The environment's own reward is not part of it.
\<close>

theorem pushed_reward_is_shaped:
  assumes run: "push_games lc lv suff intr cache B = Inr games"
    and b: "b < B" and i: "i < length (games ! b)"
  shows "i < length cache
     \<and> reward (games ! b ! i) = suff ! b ! i
          + counting_reward (cache ! i) ! b * mask (cache ! i) ! b * lc
          + valid_command_reward (cache ! i) ! b * mask (cache ! i) ! b * lv
          + (case intr of None \<Rightarrow> 0 | Some r \<Rightarrow> r ! b ! i * mask (cache ! i) ! b)"
proof -
  from push_games_Inr[OF run] obtain rs where
    cr: "command_rewards lc lv suff intr cache B = Inr rs"
    and g: "games = map (\<lambda>b. push_loop b
                        (map (\<lambda>i. (cache ! i, map (\<lambda>row. row ! i) rs)) [0..<length cache]))
                      [0..<B]"
    by blast
  let ?c1 = "map (\<lambda>i. (cache ! i, map (\<lambda>row. row ! i) rs)) [0..<length cache]"
  from g b have gb: "games ! b = push_loop b ?c1" by simp
  from i gb have "i < length (push_loop b ?c1)" by simp
  from push_loop_reward[OF this] have il: "i < length cache"
    and rw: "reward (push_loop b ?c1 ! i) = snd (?c1 ! i) ! b" by simp_all
  from command_rewards_Inr[OF cr] b il have lr: "length rs = B"
    and v: "rs ! b ! i = suff ! b ! i
                  + counting_reward (cache ! i) ! b * mask (cache ! i) ! b * lc
                  + valid_command_reward (cache ! i) ! b * mask (cache ! i) ! b * lv
                  + (case intr of None \<Rightarrow> 0 | Some r \<Rightarrow> r ! b ! i * mask (cache ! i) ! b)"
    by simp_all
  have "snd (?c1 ! i) ! b = rs ! b ! i" using il lr b by simp
  with rw gb v il show ?thesis by simp
qed

text \<open>
  Claim C7. For every game of the batch, with masks that are never negative (they are 0 or
  1), the Transitions pushed for the game are not empty, \<open>is_final\<close> is true for the last one
  and false for all earlier ones, and pushing stops at the first step whose mask is 0 for
  the game; the step loop always ends on a step whose mask is all zero, by itself or because
  the mask of the last allowed step is forced to zero.
\<close>

theorem last_pushed_transition_is_final:
  assumes run: "push_games lc lv suff intr (step_loop max_steps outs) B = Inr games"
    and nn: "\<forall>t. \<forall>x\<in>set (mask (outs t)). 0 \<le> x"
    and b: "b < B"
  shows "games ! b \<noteq> []
     \<and> is_final (last (games ! b))
     \<and> (\<forall>t\<in>set (butlast (games ! b)). \<not> is_final t)
     \<and> length (games ! b)
         = Suc (length (takeWhile (\<lambda>info. mask info ! b \<noteq> 0) (step_loop max_steps outs)))
     \<and> (\<forall>x\<in>set (mask (last (step_loop max_steps outs))). x = 0)"
proof -
  let ?cache = "step_loop max_steps outs"
  from push_games_Inr[OF run] obtain rs where
    cr: "command_rewards lc lv suff intr ?cache B = Inr rs"
    and g: "games = map (\<lambda>b. push_loop b
                        (map (\<lambda>i. (?cache ! i, map (\<lambda>row. row ! i) rs)) [0..<length ?cache]))
                      [0..<B]"
    by blast
  let ?c1 = "map (\<lambda>i. (?cache ! i, map (\<lambda>row. row ! i) rs)) [0..<length ?cache]"
  from g b have gb: "games ! b = push_loop b ?c1" by simp
  from command_rewards_Inr[OF cr] have ne: "?cache \<noteq> []"
    and lm: "\<forall>info\<in>set ?cache. length (mask info) = B" by simp_all
  have "0 < max_steps"
  proof (rule ccontr)
    assume "\<not> 0 < max_steps"
    then have "?cache = []" by (simp add: step_loop_def)
    with ne show False by simp
  qed
  from step_loop_ends_stopped[OF nn this]
  have z: "\<forall>x\<in>set (mask (last ?cache)). x = 0" by simp
  have "last ?cache \<in> set ?cache" using ne by simp
  with lm b have "b < length (mask (last ?cache))" by simp
  with z have zb: "mask (last ?cache) ! b = 0" by simp
  have f: "map fst ?c1 = ?cache" by (simp add: map_nth o_def)
  have ne1: "?c1 \<noteq> []" using ne by simp
  have "fst (last ?c1) = last (map fst ?c1)" using ne1 by (simp add: last_map)
  with f zb have z1: "mask (fst (last ?c1)) ! b = 0" by simp
  have tw: "length (takeWhile (\<lambda>c. mask (fst c) ! b \<noteq> 0) ?c1)
              = length (takeWhile (\<lambda>info. mask info ! b \<noteq> 0) ?cache)"
  proof -
    have "takeWhile (\<lambda>info. mask info ! b \<noteq> 0) (map fst ?c1)
            = map fst (takeWhile ((\<lambda>info. mask info ! b \<noteq> 0) \<circ> fst) ?c1)"
      by (rule takeWhile_map)
    then have "length (takeWhile (\<lambda>info. mask info ! b \<noteq> 0) ?cache)
                 = length (takeWhile ((\<lambda>info. mask info ! b \<noteq> 0) \<circ> fst) ?c1)"
      unfolding f by simp
    then show ?thesis by (simp add: o_def)
  qed
  from push_loop_final[OF ne1 z1] show ?thesis unfolding gb tw using z by simp
qed

lemma example_step_loop:
  "step_loop 3 (\<lambda>t. \<lparr>mask = (if t < 2 then [1, 1] else [0, 1]),
                       counting_reward = [1, 0], valid_command_reward = [0, 1]\<rparr>)
     = [\<lparr>mask = [1, 1], counting_reward = [1, 0], valid_command_reward = [0, 1]\<rparr>,
        \<lparr>mask = [1, 1], counting_reward = [1, 0], valid_command_reward = [0, 1]\<rparr>,
        \<lparr>mask = [0, 0], counting_reward = [1, 0], valid_command_reward = [0, 1]\<rparr>]"
  by (simp add: step_loop_def upt_rec Let_def)

lemma example_push_games:
  "push_games (1/2) (1/4) [[0, 0, 1], [0, 0, 0]] None
     [\<lparr>mask = [1, 1], counting_reward = [1, 0], valid_command_reward = [0, 1]\<rparr>,
      \<lparr>mask = [1, 1], counting_reward = [1, 0], valid_command_reward = [0, 1]\<rparr>,
      \<lparr>mask = [0, 0], counting_reward = [1, 0], valid_command_reward = [0, 1]\<rparr>] 2
     = Inr [[\<lparr>reward = 1/2, is_final = False\<rparr>, \<lparr>reward = 1/2, is_final = False\<rparr>,
             \<lparr>reward = 1, is_final = True\<rparr>],
            [\<lparr>reward = 1/4, is_final = False\<rparr>, \<lparr>reward = 1/4, is_final = False\<rparr>,
             \<lparr>reward = 0, is_final = True\<rparr>]]"
  by (simp add: push_games_def command_rewards_def bind_err_def Let_def has_shape_def
        stack_axis1_def mat_op_def mat_scale_def upt_rec)

theorem pushed_reward_is_shaped_witness:
  "push_games (1/2) (1/4) [[0, 0, 1], [0, 0, 0]] None
     [\<lparr>mask = [1, 1], counting_reward = [1, 0], valid_command_reward = [0, 1]\<rparr>,
      \<lparr>mask = [1, 1], counting_reward = [1, 0], valid_command_reward = [0, 1]\<rparr>,
      \<lparr>mask = [0, 0], counting_reward = [1, 0], valid_command_reward = [0, 1]\<rparr>] 2
     = Inr [[\<lparr>reward = 1/2, is_final = False\<rparr>, \<lparr>reward = 1/2, is_final = False\<rparr>,
             \<lparr>reward = 1, is_final = True\<rparr>],
            [\<lparr>reward = 1/4, is_final = False\<rparr>, \<lparr>reward = 1/4, is_final = False\<rparr>,
             \<lparr>reward = 0, is_final = True\<rparr>]]
   \<and> (0::nat) < 2 \<and> (1::nat) < 3
   \<and> reward (\<lparr>reward = 1/2, is_final = False\<rparr> :: transition) = 0 + 1 * 1 * (1/2) + 0 * 1 * (1/4) + 0"
proof -
  let ?cache = "[\<lparr>mask = [1, 1], counting_reward = [1, 0], valid_command_reward = [0, 1]\<rparr>,
      \<lparr>mask = [1, 1], counting_reward = [1, 0], valid_command_reward = [0, 1]\<rparr>,
      \<lparr>mask = [0, 0], counting_reward = [1, 0], valid_command_reward = [0, 1]\<rparr>]"
  let ?games = "[[\<lparr>reward = 1/2, is_final = False\<rparr>, \<lparr>reward = 1/2, is_final = False\<rparr>,
             \<lparr>reward = 1, is_final = True\<rparr>],
            [\<lparr>reward = 1/4, is_final = False\<rparr>, \<lparr>reward = 1/4, is_final = False\<rparr>,
             \<lparr>reward = 0, is_final = True\<rparr>]]"
  note run = example_push_games
  have b: "(0::nat) < 2" by simp
  have i: "(1::nat) < length (?games ! 0)" by simp
  from pushed_reward_is_shaped[OF run b i]
  have "reward (?games ! 0 ! 1) = [[0, 0, 1], [0, 0, 0]] ! 0 ! 1
          + counting_reward (?cache ! 1) ! 0 * mask (?cache ! 1) ! 0 * (1/2)
          + valid_command_reward (?cache ! 1) ! 0 * mask (?cache ! 1) ! 0 * (1/4)
          + (case None :: real list list option of None \<Rightarrow> 0
             | Some r \<Rightarrow> r ! 0 ! 1 * mask (?cache ! 1) ! 0)"
    by blast
  then have "reward (\<lparr>reward = 1/2, is_final = False\<rparr> :: transition)
               = 0 + 1 * 1 * (1/2) + 0 * 1 * (1/4) + 0"
    by simp
  with run show ?thesis by simp
qed

theorem last_pushed_transition_is_final_witness:
  "push_games (1/2) (1/4) [[0, 0, 1], [0, 0, 0]] None
     (step_loop 3 (\<lambda>t. \<lparr>mask = (if t < 2 then [1, 1] else [0, 1]),
                         counting_reward = [1, 0], valid_command_reward = [0, 1]\<rparr>)) 2
     = Inr [[\<lparr>reward = 1/2, is_final = False\<rparr>, \<lparr>reward = 1/2, is_final = False\<rparr>,
             \<lparr>reward = 1, is_final = True\<rparr>],
            [\<lparr>reward = 1/4, is_final = False\<rparr>, \<lparr>reward = 1/4, is_final = False\<rparr>,
             \<lparr>reward = 0, is_final = True\<rparr>]]
   \<and> (1::nat) < 2
   \<and> is_final (last [\<lparr>reward = 1/4, is_final = False\<rparr>, \<lparr>reward = 1/4, is_final = False\<rparr>,
                      \<lparr>reward = 0, is_final = True\<rparr>])
   \<and> list_all (\<lambda>t. \<not> is_final t)
         (butlast [\<lparr>reward = 1/4, is_final = False\<rparr>, \<lparr>reward = 1/4, is_final = False\<rparr>,
                   \<lparr>reward = 0, is_final = True\<rparr>])"
proof -
  let ?outs = "\<lambda>t::nat. \<lparr>mask = (if t < 2 then [1, 1] else [0, 1]),
                         counting_reward = [1, 0], valid_command_reward = [0, 1 :: real]\<rparr>"
  let ?games = "[[\<lparr>reward = 1/2, is_final = False\<rparr>, \<lparr>reward = 1/2, is_final = False\<rparr>,
             \<lparr>reward = 1, is_final = True\<rparr>],
            [\<lparr>reward = 1/4, is_final = False\<rparr>, \<lparr>reward = 1/4, is_final = False\<rparr>,
             \<lparr>reward = 0, is_final = True\<rparr>]]"
  have run: "push_games (1/2) (1/4) [[0, 0, 1], [0, 0, 0]] None (step_loop 3 ?outs) 2
               = Inr ?games"
    unfolding example_step_loop by (rule example_push_games)
  have nn: "\<forall>t. \<forall>x\<in>set (mask (?outs t)). 0 \<le> x" by simp
  have b: "(1::nat) < 2" by simp
  from last_pushed_transition_is_final[OF run nn b]
  have f: "is_final (last (?games ! 1))"
    and e: "\<forall>t\<in>set (butlast (?games ! 1)). \<not> is_final t"
    by blast+
  from e have e': "list_all (\<lambda>t. \<not> is_final t) (butlast (?games ! 1))"
    by (simp only: list_all_iff)
  from f have f': "is_final (last [\<lparr>reward = 1/4, is_final = False\<rparr>,
                      \<lparr>reward = 1/4, is_final = False\<rparr>, \<lparr>reward = 0, is_final = True\<rparr>])"
    by simp
  from e' have e'': "list_all (\<lambda>t. \<not> is_final t)
         (butlast [\<lparr>reward = 1/4, is_final = False\<rparr>, \<lparr>reward = 1/4, is_final = False\<rparr>,
                   \<lparr>reward = 0, is_final = True\<rparr>])"
    by simp
  from run b f' e'' show ?thesis by blast
qed

end
